theory Spec2Isabelle
  imports Complex_Main "HOL-Library.AList"
begin

section \<open>Python strings and exceptions\<close>

text \<open>
  Python's \<open>str\<close> is modelled by \<open>string\<close>, restricted to ASCII: the character classes
  below are the ASCII part of Python's \<open>[A-Z]\<close>, \<open>\d\<close>, \<open>\s\<close> and \<open>str.isspace\<close>, and
  \<open>lower\<close> and \<open>upper\<close> change the 26 letters.
  An exception is a value of \<open>py_error\<close>; a function that may raise returns
  \<open>py_error + 'a\<close>, with \<open>Inl\<close> for the raise.
\<close>

datatype py_error = ValueError | AttributeError | IntegrityError | DatabaseError

definition is_upper :: "char \<Rightarrow> bool" where
  "is_upper c = (c \<in> set ''ABCDEFGHIJKLMNOPQRSTUVWXYZ'')"

definition is_lower :: "char \<Rightarrow> bool" where
  "is_lower c = (c \<in> set ''abcdefghijklmnopqrstuvwxyz'')"

definition is_digit :: "char \<Rightarrow> bool" where
  "is_digit c = (c \<in> set ''0123456789'')"

text \<open>The ASCII blanks of \<open>str.isspace\<close>: the codes 9 to 13 and 28 to 32.\<close>

definition is_space :: "char \<Rightarrow> bool" where
  "is_space c = (c \<in> set [CHR 0x09, CHR 0x0A, CHR 0x0B, CHR 0x0C, CHR 0x0D,
     CHR 0x1C, CHR 0x1D, CHR 0x1E, CHR 0x1F, CHR 0x20])"

definition lower_char :: "char \<Rightarrow> char" where
  "lower_char c =
     (case map_of (zip ''ABCDEFGHIJKLMNOPQRSTUVWXYZ'' ''abcdefghijklmnopqrstuvwxyz'') c of
        None \<Rightarrow> c | Some l \<Rightarrow> l)"

definition upper_char :: "char \<Rightarrow> char" where
  "upper_char c =
     (case map_of (zip ''abcdefghijklmnopqrstuvwxyz'' ''ABCDEFGHIJKLMNOPQRSTUVWXYZ'') c of
        None \<Rightarrow> c | Some u \<Rightarrow> u)"

definition lower :: "string \<Rightarrow> string" where
  "lower s = map lower_char s"

definition upper :: "string \<Rightarrow> string" where
  "upper s = map upper_char s"

definition strip :: "string \<Rightarrow> string" where
  "strip s = rev (dropWhile is_space (rev (dropWhile is_space s)))"

definition startswith :: "string \<Rightarrow> string \<Rightarrow> bool" where
  "startswith s pre = (take (length pre) s = pre)"

definition endswith :: "string \<Rightarrow> string \<Rightarrow> bool" where
  "endswith s suf = (length suf \<le> length s \<and> drop (length s - length suf) s = suf)"

text \<open>\<open>needle in s\<close>: the needle starts at some position of \<open>s\<close>.\<close>

fun contains :: "string \<Rightarrow> string \<Rightarrow> bool" where
  "contains [] needle = (needle = [])"
| "contains (c # cs) needle = (startswith (c # cs) needle \<or> contains cs needle)"

text \<open>\<open>str.replace(old, "")\<close> for a one-character \<open>old\<close>.\<close>

definition remove_char :: "char \<Rightarrow> string \<Rightarrow> string" where
  "remove_char c s = filter (\<lambda>x. x \<noteq> c) s"

text \<open>The digit of a value below ten, and the value of a digit.\<close>

definition digit_char :: "nat \<Rightarrow> char" where
  "digit_char d = ''0123456789'' ! d"

definition digit_val :: "char \<Rightarrow> nat" where
  "digit_val c = length (takeWhile (\<lambda>d. d \<noteq> c) ''0123456789'')"

text \<open>\<open>str(n)\<close> for an integer: decimal digits, most significant first.\<close>

fun str_nat :: "nat \<Rightarrow> string" where
  "str_nat n = (if n < 10 then [digit_char n] else str_nat (n div 10) @ [digit_char (n mod 10)])"

definition str_int :: "int \<Rightarrow> string" where
  "str_int i = (if i < 0 then CHR ''-'' # str_nat (nat (- i)) else str_nat (nat i))"

text \<open>
  \<open>int(s)\<close> on a run of decimal digits. Python's \<open>int\<close> accepts more (sign, blanks,
  underscores); every other input raises here, so a proof that this model does not
  raise covers the code.
\<close>

definition py_int :: "string \<Rightarrow> py_error + int" where
  "py_int s = (if s \<noteq> [] \<and> list_all is_digit s
     then Inr (int (foldl (\<lambda>a c. 10 * a + digit_val c) 0 s)) else Inl ValueError)"

section \<open>Regular expressions of functions.py\<close>

text \<open>
  \<open>re.search(r, s)\<close> tries the pattern at each position of \<open>s\<close> from the left, the end
  of the string included, and returns the first match. A pattern is a function from
  the text at a position to the matched text, when it matches there.
\<close>

fun re_search :: "(string \<Rightarrow> string option) \<Rightarrow> string \<Rightarrow> string option" where
  "re_search pat [] = pat []"
| "re_search pat (c # cs) = (case pat (c # cs) of Some g \<Rightarrow> Some g | None \<Rightarrow> re_search pat cs)"

text \<open>\<open>\d{n}\<close>: exactly \<open>n\<close> digits.\<close>

definition match_digits :: "nat \<Rightarrow> string \<Rightarrow> string option" where
  "match_digits n s = (if n \<le> length s \<and> list_all is_digit (take n s) then Some (take n s) else None)"

definition month_names :: "string list" where
  "month_names = [''January'', ''February'', ''March'', ''April'', ''May'', ''June'', ''July'',
     ''August'', ''September'', ''October'', ''November'', ''December'']"

text \<open>
  \<open>,?\s*\d{4}\<close> at a position. Both quantifiers are greedy, and giving back what they
  took cannot help: the text they release is a comma or blank, where \<open>\d{4}\<close> fails.
\<close>

definition match_year_tail :: "string \<Rightarrow> string option" where
  "match_year_tail s =
     (let comma = (if startswith s '','' then '','' else []);
          s1 = drop (length comma) s;
          blanks = takeWhile is_space s1;
          s2 = dropWhile is_space s1
      in case match_digits 4 s2 of None \<Rightarrow> None | Some y \<Rightarrow> Some (comma @ blanks @ y))"

text \<open>
  \<open>\d{1,2},?\s*\d{4}\<close> at a position: \<open>\d{1,2}\<close> is greedy, two digits first; when the
  rest fails after two digits the engine backtracks to one digit.
\<close>

definition match_day_tail :: "string \<Rightarrow> string option" where
  "match_day_tail s =
     (case (case match_digits 2 s of None \<Rightarrow> None
            | Some d \<Rightarrow> (case match_year_tail (drop 2 s) of None \<Rightarrow> None | Some t \<Rightarrow> Some (d @ t))) of
        Some g \<Rightarrow> Some g
      | None \<Rightarrow> (case match_digits 1 s of None \<Rightarrow> None
            | Some d \<Rightarrow> (case match_year_tail (drop 1 s) of None \<Rightarrow> None | Some t \<Rightarrow> Some (d @ t))))"

text \<open>
  \<open>(January|...|December)\s+\d{1,2},?\s*\d{4}\<close> at a position. No month name is a
  prefix of another, so at most one alternative matches; \<open>\s+\<close> takes every blank, since
  a digit has to follow.
\<close>

definition match_month_date :: "string \<Rightarrow> string option" where
  "match_month_date s =
     (case find (\<lambda>m. startswith s m) month_names of
        None \<Rightarrow> None
      | Some m \<Rightarrow>
          (let s1 = drop (length m) s;
               blanks = takeWhile is_space s1
           in if blanks = [] then None
              else (case match_day_tail (dropWhile is_space s1) of
                      None \<Rightarrow> None
                    | Some t \<Rightarrow> Some (m @ blanks @ t))))"

section \<open>functions.py\<close>

text \<open>\<open>os.path.basename\<close> (POSIX): what follows the last slash.\<close>

definition basename :: "string \<Rightarrow> string" where
  "basename p = rev (takeWhile (\<lambda>c. c \<noteq> CHR ''/'') (rev p))"

text \<open>
  \<open>re.match(r"([A-Z]+)_(\d{8})_", filename)\<close>, anchored at the start: the groups, when it
  matches. \<open>[A-Z]+\<close> takes the whole run of capitals; a shorter run is followed by a
  capital, never by the underscore.
\<close>

definition match_filename :: "string \<Rightarrow> (string \<times> string) option" where
  "match_filename s =
     (let ticker = takeWhile is_upper s;
          s1 = dropWhile is_upper s
      in if ticker = [] \<or> \<not> startswith s1 ''_'' then None
         else (case match_digits 8 (drop 1 s1) of
                 None \<Rightarrow> None
               | Some d \<Rightarrow> if startswith (drop 9 s1) ''_'' then Some (ticker, d) else None))"

text \<open>\<open>extract_metadata\<close>: the \<open>ValueError\<close> is the spec's \<open>PatternMismatch\<close>.\<close>

definition extract_metadata :: "string \<Rightarrow> py_error + (string \<times> string)" where
  "extract_metadata file_path =
     (let filename = basename file_path
      in case match_filename filename of
           None \<Rightarrow> Inl ValueError
         | Some (ticker, date_str) \<Rightarrow>
             Inr (ticker, take 4 date_str @ ''-'' @ take 2 (drop 4 date_str) @ ''-'' @ drop 6 date_str))"

text \<open>
  \<open>parse_period\<close>: the four values of the returned Series. \<open>.group(0)\<close> on a failed
  search raises \<open>AttributeError\<close>, \<open>int\<close> may raise \<open>ValueError\<close>.
\<close>

definition period_type_of :: "string \<Rightarrow> string" where
  "period_type_of p =
     (if contains p ''Three Months'' then ''Three Months''
      else if contains p ''Six Months'' then ''Six Months''
      else if contains p ''Year Ended'' then ''Year Ended''
      else ''Point-in-Time'')"

definition parse_period :: "string \<Rightarrow> py_error + (string \<times> string option \<times> bool \<times> int option)" where
  "parse_period p =
     (let unaudited = contains (lower p) ''unaudited'';
          period_type = period_type_of p
      in case re_search match_month_date p of
           Some end_date \<Rightarrow>
             (case re_search (match_digits 4) end_date of
                None \<Rightarrow> Inl AttributeError
              | Some g \<Rightarrow>
                  (case py_int g of
                     Inl e \<Rightarrow> Inl e
                   | Inr year \<Rightarrow> Inr (period_type, Some end_date, unaudited, Some year)))
         | None \<Rightarrow>
             (case re_search (match_digits 4) p of
                Some g \<Rightarrow>
                  (case py_int g of
                     Inl e \<Rightarrow> Inl e
                   | Inr year \<Rightarrow> Inr (period_type, Some (str_int year), unaudited, Some year))
              | None \<Rightarrow> Inr (period_type, None, unaudited, None)))"

section \<open>main.py: one candidate table\<close>

text \<open>
  A cell of a raw table is a text or missing (\<open>NaN\<close>, here \<open>None\<close>). A frame is the
  list of its columns, each the list of its cells from the first row down, as pandas
  holds it; the labels of the columns are kept beside them once they are set.
\<close>

type_synonym cell = "string option"

text \<open>
  A Python \<open>float\<close>: \<open>Finite q\<close> is the decimal value read from the text (the rounding to
  binary64 is not modelled), \<open>Infinity True\<close> is \<open>+inf\<close>, and \<open>NaN\<close> is also pandas' missing
  value.
\<close>

datatype pyfloat = Finite rat | Infinity bool | NaN

text \<open>\<open>df.dropna(axis=1, how="all")\<close>: a column is kept when some cell is not missing.\<close>

definition drop_empty_columns :: "cell list list \<Rightarrow> cell list list" where
  "drop_empty_columns cols = filter (\<lambda>col. \<not> list_all (\<lambda>x. x = None) col) cols"

definition fillna_str :: "cell \<Rightarrow> string" where
  "fillna_str x = (case x of None \<Rightarrow> [] | Some s \<Rightarrow> s)"

text \<open>\<open>" ".join\<close>.\<close>

fun join_space :: "string list \<Rightarrow> string" where
  "join_space [] = []"
| "join_space [a] = a"
| "join_space (a # b # r) = a @ '' '' @ join_space (b # r)"

text \<open>\<open>df.iloc[0:2].fillna("").astype(str).agg(" ".join).str.strip()\<close>, for one column.\<close>

definition header_of :: "cell list \<Rightarrow> string" where
  "header_of col = strip (join_space (map fillna_str (take 2 col)))"

text \<open>
  Steps 2 and 3 of the second loop of \<open>run_etl_pipeline\<close>: the labels are
  \<open>["Line Item"] + list(header[1:])\<close> (pandas raises \<open>ValueError\<close> when their number is
  not the number of columns, which is the frame without columns), and the data is
  \<open>df.iloc[3:]\<close>.
\<close>

definition build_header :: "cell list list \<Rightarrow> py_error + (string \<times> cell list) list" where
  "build_header df =
     (let header = map header_of df;
          new_columns = ''Line Item'' # tl header
      in if length new_columns \<noteq> length df then Inl ValueError
         else Inr (zip new_columns (map (drop 3) df)))"

text \<open>\<open>make_unique\<close>: the loop over \<open>cols\<close>, with the dict \<open>seen\<close> and the list \<open>new_cols\<close>.\<close>

fun make_unique_loop :: "string list \<Rightarrow> (string \<rightharpoonup> nat) \<Rightarrow> string list \<Rightarrow> string list" where
  "make_unique_loop [] seen new_cols = new_cols"
| "make_unique_loop (c # cols) seen new_cols =
     (case seen c of
        None \<Rightarrow> make_unique_loop cols (seen(c \<mapsto> 0)) (new_cols @ [c])
      | Some k \<Rightarrow> make_unique_loop cols (seen(c \<mapsto> k + 1)) (new_cols @ [c @ ''_'' @ str_nat (k + 1)]))"

definition make_unique :: "string list \<Rightarrow> string list" where
  "make_unique cols = make_unique_loop cols Map.empty []"

subsection \<open>float()\<close>

text \<open>
  The grammar of \<open>float(s)\<close> (Python language reference, ASCII part): blanks around the
  text are dropped; an optional sign; then \<open>inf\<close>, \<open>infinity\<close> or \<open>nan\<close> in any case, or
  a decimal number: digit groups may hold single underscores between digits, the
  integer or the fraction part may be absent but not both, and an exponent is \<open>e\<close> or
  \<open>E\<close>, an optional sign and digits. Anything else raises \<open>ValueError\<close>.
\<close>

definition valid_digitpart :: "string \<Rightarrow> bool" where
  "valid_digitpart s =
     (s \<noteq> [] \<and> is_digit (hd s) \<and> is_digit (last s)
      \<and> list_all (\<lambda>c. is_digit c \<or> c = CHR ''_'') s
      \<and> \<not> contains s ''__'')"

definition digits_value :: "string \<Rightarrow> nat" where
  "digits_value s = foldl (\<lambda>a c. 10 * a + digit_val c) 0 (filter is_digit s)"

definition parse_sign :: "string \<Rightarrow> bool \<times> string" where
  "parse_sign s =
     (if startswith s ''-'' \<and> s \<noteq> [] then (True, tl s)
      else if startswith s ''+'' \<and> s \<noteq> [] then (False, tl s)
      else (False, s))"

text \<open>The mantissa \<open>[digitpart] "." digitpart | digitpart ["."]\<close>.\<close>

definition parse_mantissa :: "string \<Rightarrow> rat option" where
  "parse_mantissa s =
     (let ip = takeWhile (\<lambda>c. c \<noteq> CHR ''.'') s;
          rest = dropWhile (\<lambda>c. c \<noteq> CHR ''.'') s
      in if rest = [] then (if valid_digitpart ip then Some (of_nat (digits_value ip)) else None)
         else (let fp = tl rest
               in if (ip = [] \<and> valid_digitpart fp)
                     \<or> (valid_digitpart ip \<and> (fp = [] \<or> valid_digitpart fp))
                  then Some (of_nat (digits_value ip)
                             + of_nat (digits_value fp) / 10 ^ length (filter is_digit fp))
                  else None))"

text \<open>The exponent after \<open>e\<close> or \<open>E\<close>: an optional sign and a digit group.\<close>

definition parse_exponent :: "string \<Rightarrow> int option" where
  "parse_exponent s =
     (let (neg, ds) = parse_sign s
      in if valid_digitpart ds
         then Some (if neg then - int (digits_value ds) else int (digits_value ds))
         else None)"

definition scale10 :: "rat \<Rightarrow> int \<Rightarrow> rat" where
  "scale10 q e = (if 0 \<le> e then q * 10 ^ nat e else q / 10 ^ nat (- e))"

text \<open>\<open>floatnumber\<close>: the mantissa, and the exponent when an \<open>e\<close> or \<open>E\<close> is there.\<close>

definition parse_floatnumber :: "string \<Rightarrow> rat option" where
  "parse_floatnumber s =
     (let is_e = (\<lambda>c. c = CHR ''e'' \<or> c = CHR ''E'');
          m = takeWhile (\<lambda>c. \<not> is_e c) s;
          rest = dropWhile (\<lambda>c. \<not> is_e c) s
      in case parse_mantissa m of
           None \<Rightarrow> None
         | Some q \<Rightarrow>
             (if rest = [] then Some q
              else (case parse_exponent (tl rest) of None \<Rightarrow> None | Some e \<Rightarrow> Some (scale10 q e))))"

definition py_float :: "string \<Rightarrow> py_error + pyfloat" where
  "py_float s =
     (let (neg, body) = parse_sign (strip s)
      in if lower body = ''inf'' \<or> lower body = ''infinity'' then Inr (Infinity (\<not> neg))
         else if lower body = ''nan'' then Inr NaN
         else (case parse_floatnumber body of
                 None \<Rightarrow> Inl ValueError
               | Some q \<Rightarrow> Inr (Finite (if neg then - q else q))))"

subsection \<open>clean_number and the reshape\<close>

text \<open>
  \<open>clean_number\<close>: \<open>pd.isna(x)\<close> gives \<open>np.nan\<close>; the bare \<open>except\<close> turns every raise of
  \<open>float\<close> into \<open>np.nan\<close>. \<open>x[1:-1]\<close> drops the first and the last character.
\<close>

definition clean_number :: "cell \<Rightarrow> pyfloat" where
  "clean_number x =
     (case x of
        None \<Rightarrow> NaN
      | Some s \<Rightarrow>
          (let x1 = strip (remove_char (CHR ''$'') (remove_char (CHR '','') s));
               x2 = (if startswith x1 ''('' \<and> endswith x1 '')'' then ''-'' @ butlast (tl x1) else x1)
           in case py_float x2 of Inl e \<Rightarrow> NaN | Inr v \<Rightarrow> v))"

text \<open>\<open>astype(str)\<close> of a cell, then \<open>str.strip\<close>: a missing cell prints as \<open>nan\<close>.\<close>

definition line_item_text :: "cell \<Rightarrow> string" where
  "line_item_text x = strip (case x of None \<Rightarrow> ''nan'' | Some s \<Rightarrow> s)"

text \<open>The \<open>rename_map\<close> of the period columns.\<close>

definition rename_period :: "string \<Rightarrow> string" where
  "rename_period col =
     (if contains col ''June 30, 2025'' then ''June 30, 2025 (unaudited)''
      else if contains col ''December 31, 2024'' then ''December 31, 2024''
      else col)"

text \<open>
  \<open>melt(id_vars="Line Item", var_name="Period", value_name="Value")\<close>: the value
  columns one after the other, each with the line item of its row.
\<close>

definition melt :: "string list \<Rightarrow> (string \<times> pyfloat list) list \<Rightarrow> (string \<times> string \<times> pyfloat) list" where
  "melt line_items value_cols =
     concat (map (\<lambda>(period, vals). map (\<lambda>(li, v). (li, period, v)) (zip line_items vals)) value_cols)"

text \<open>\<open>dropna(subset=["Value"])\<close>.\<close>

definition dropna_value :: "(string \<times> string \<times> pyfloat) list \<Rightarrow> (string \<times> string \<times> pyfloat) list" where
  "dropna_value rows = filter (\<lambda>(li, period, v). v \<noteq> NaN) rows"

text \<open>
  Steps 5 and 6 and the reshape of \<open>run_etl_pipeline\<close>, on the frame with its labels
  (the first column is the line items; the labels are taken to be pairwise distinct,
  as pandas selects columns by label): clean the value columns, keep those with a
  number, rename the periods, melt, and drop the rows without a value.
\<close>

definition reshape :: "(string \<times> cell list) list \<Rightarrow> (string \<times> string \<times> pyfloat) list" where
  "reshape df =
     (let line_items = map line_item_text (case df of [] \<Rightarrow> [] | c # cs \<Rightarrow> snd c);
          cleaned = map (\<lambda>(col, cells). (col, map clean_number cells)) (tl df);
          num_cols = filter (\<lambda>(col, vals). \<not> list_all (\<lambda>v. v = NaN) vals \<and> col \<noteq> ''Line Item'') cleaned;
          df_clean = map (\<lambda>(col, vals). (rename_period col, vals)) num_cols
      in dropna_value (melt line_items df_clean))"

section \<open>OLTP_load.py: the normalized store and the loader\<close>

subsection \<open>Tables, rows and the session\<close>

text \<open>
  A calendar date is year, month and day. \<open>parse_date\<close> returns \<open>None\<close>, a date, or pandas'
  \<open>NaT\<close> (from \<open>pd.to_datetime(..., errors="coerce")\<close>).
\<close>

type_synonym date = "nat \<times> nat \<times> nat"

datatype pdate = Day date | NaT

text \<open>
  The tables \<open>company\<close>, \<open>statement_type\<close> and \<open>line_item\<close> hold an id and a unique text
  (the ticker or the name). A row of \<open>filing\<close> is its id and its natural key
  \<open>(company_id, filing_date, fiscal_year, is_audited)\<close>, the tuple the loader builds for
  its dict. A table is the list of its rows in the order of their insertion, which is
  the order a query without \<open>ORDER BY\<close> is taken to return.
\<close>

type_synonym name_row = "nat \<times> string"

type_synonym filing_key = "nat \<times> date \<times> int option \<times> bool option"

type_synonym filing_row = "nat \<times> filing_key"

text \<open>The mapping of one \<open>financial_fact\<close> row, as \<open>fact_rows.append\<close> builds it.\<close>

record fact =
  filing_id :: nat
  statement_type_id :: nat
  line_item_id :: nat
  period_type :: "string option"
  end_date :: "pdate option"
  fact_value :: "pyfloat option"

type_synonym fact_row = "nat \<times> fact"

record oltp =
  company :: "name_row list"
  filing :: "filing_row list"
  statement_type :: "name_row list"
  line_item :: "name_row list"
  financial_fact :: "fact_row list"

text \<open>
  A session holds what is committed and what the session itself sees: the committed
  rows and its own writes since the last commit.
\<close>

record session =
  committed :: oltp
  pending :: oltp

definition commit :: "session \<Rightarrow> session" where
  "commit s = s\<lparr>committed := pending s\<rparr>"

definition rollback :: "session \<Rightarrow> session" where
  "rollback s = s\<lparr>pending := committed s\<rparr>"

text \<open>The autoincremented key of a new row: one more than the largest key.\<close>

definition next_id :: "nat list \<Rightarrow> nat" where
  "next_id ids = Suc (fold max ids 0)"

text \<open>A Python dict: keys in the order of their first insertion, a later value replaces.\<close>

type_synonym ('k, 'v) dict = "('k \<times> 'v) list"

definition dict_of :: "('k \<times> 'v) list \<Rightarrow> ('k, 'v) dict \<Rightarrow> ('k, 'v) dict" where
  "dict_of kvs d = fold (\<lambda>kv. AList.update (fst kv) (snd kv)) kvs d"

text \<open>\<open>Series.dropna()\<close> and \<open>Series.unique()\<close> (first occurrences, in order).\<close>

primrec dropna :: "'a option list \<Rightarrow> 'a list" where
  "dropna [] = []"
| "dropna (x # xs) = (case x of None \<Rightarrow> dropna xs | Some v \<Rightarrow> v # dropna xs)"

primrec unique :: "'a list \<Rightarrow> 'a list" where
  "unique [] = []"
| "unique (x # xs) = x # filter (\<lambda>y. y \<noteq> x) (unique xs)"

subsection \<open>Bulk inserts\<close>

text \<open>
  \<open>session.bulk_insert_mappings\<close> inserts row by row inside the open transaction. A
  row that breaks the \<open>unique\<close> constraint of its table raises \<open>IntegrityError\<close>; the rows
  before it stay pending until the rollback. The result is the exception, if any, and
  the table as the session sees it.
\<close>

fun bulk_insert_names :: "string list \<Rightarrow> name_row list \<Rightarrow> py_error option \<times> name_row list" where
  "bulk_insert_names [] table = (None, table)"
| "bulk_insert_names (n # ns) table =
     (if n \<in> snd ` set table then (Some IntegrityError, table)
      else bulk_insert_names ns (table @ [(next_id (map fst table), n)]))"

text \<open>
  The constraint \<open>uq_filing_company_date_year_audited\<close>: SQLite takes two rows as equal
  only when none of the compared columns is \<open>NULL\<close>.
\<close>

definition filing_conflict :: "filing_key \<Rightarrow> filing_row list \<Rightarrow> bool" where
  "filing_conflict k table =
     (fst (snd (snd k)) \<noteq> None \<and> snd (snd (snd k)) \<noteq> None \<and> k \<in> snd ` set table)"

fun bulk_insert_filings :: "filing_key list \<Rightarrow> filing_row list \<Rightarrow> py_error option \<times> filing_row list" where
  "bulk_insert_filings [] table = (None, table)"
| "bulk_insert_filings (k # ks) table =
     (if filing_conflict k table then (Some IntegrityError, table)
      else bulk_insert_filings ks (table @ [(next_id (map fst table), k)]))"

text \<open>
  \<open>financial_fact\<close> has no unique constraint. What else makes the database refuse a fact
  row (the binding of its values, the storage) is not decided by the code under \<open>src/\<close>:
  it is the parameter \<open>db_accepts\<close>.
\<close>

fun bulk_insert_facts :: "(fact \<Rightarrow> bool) \<Rightarrow> fact list \<Rightarrow> fact_row list \<Rightarrow> py_error option \<times> fact_row list" where
  "bulk_insert_facts db_accepts [] table = (None, table)"
| "bulk_insert_facts db_accepts (f # fs) table =
     (if \<not> db_accepts f then (Some DatabaseError, table)
      else bulk_insert_facts db_accepts fs (table @ [(next_id (map fst table), f)]))"

subsection \<open>The rows of the dataframe\<close>

text \<open>
  One row of the tidy dataframe, by its columns after the renaming. A missing value is
  \<open>None\<close>; the value column is a float, missing when \<open>NaN\<close>.
\<close>

record tidy_row =
  df_ticker :: "string option"
  df_filing_date :: "string option"
  df_statement_type :: "string option"
  df_line_item :: "string option"
  df_period_type :: "string option"
  df_end_date :: "string option"
  df_fiscal_year :: "int option"
  df_is_audited :: "bool option"
  df_value :: pyfloat

text \<open>
  \<open>parse_date\<close> on a cell: missing gives \<open>None\<close>; for a text the result is what
  \<open>datetime.strptime\<close> and \<open>pd.to_datetime\<close> make of it, the parameter \<open>parse_text\<close>.
\<close>

definition parse_date :: "(string \<Rightarrow> pdate option) \<Rightarrow> string option \<Rightarrow> pdate option" where
  "parse_date parse_text d = (case d of None \<Rightarrow> None | Some s \<Rightarrow> parse_text s)"

text \<open>\<open>to_bool\<close> on a cell that is missing or a bool.\<close>

definition to_bool :: "bool option \<Rightarrow> bool option" where
  "to_bool v = v"

text \<open>\<open>astype(str)\<close> of a ticker cell: Python prints a missing one as \<open>None\<close>.\<close>

definition str_cell :: "string option \<Rightarrow> string" where
  "str_cell x = (case x of None \<Rightarrow> ''None'' | Some s \<Rightarrow> s)"

subsection \<open>Steps 1 to 3: upsert by name\<close>

text \<open>
  The pattern the loader repeats for tickers, statement types and line items, on one
  table: query the rows whose name is in the list, insert the names that are missing,
  commit, and query again. The result is the exception or the dict from name to id,
  whether a commit was made, and the table.
\<close>

definition names_query :: "string list \<Rightarrow> name_row list \<Rightarrow> (string, nat) dict" where
  "names_query names table =
     dict_of (map (\<lambda>r. (snd r, fst r)) (filter (\<lambda>r. snd r \<in> set names) table)) []"

definition upsert_names :: "string list \<Rightarrow> name_row list \<Rightarrow> (py_error + (string, nat) dict) \<times> bool \<times> name_row list" where
  "upsert_names names table =
     (let existing_map = names_query names table;
          new_objs = filter (\<lambda>n. map_of existing_map n = None) names
      in if new_objs = [] then (Inr existing_map, False, table)
         else (case bulk_insert_names new_objs table of
                 (Some e, table') \<Rightarrow> (Inl e, False, table')
               | (None, table') \<Rightarrow> (Inr (names_query names table'), True, table')))"

text \<open>The three steps on the session: the write goes to the pending state, then the commit.\<close>

definition upsert_companies :: "string list \<Rightarrow> session \<Rightarrow> (py_error + (string, nat) dict) \<times> session" where
  "upsert_companies tickers s =
     (case upsert_names tickers (company (pending s)) of
        (r, do_commit, table) \<Rightarrow>
          (let s' = s\<lparr>pending := (pending s)\<lparr>company := table\<rparr>\<rparr>
           in (r, if do_commit then commit s' else s')))"

definition upsert_statement_types :: "string list \<Rightarrow> session \<Rightarrow> (py_error + (string, nat) dict) \<times> session" where
  "upsert_statement_types stmt_names s =
     (case upsert_names stmt_names (statement_type (pending s)) of
        (r, do_commit, table) \<Rightarrow>
          (let s' = s\<lparr>pending := (pending s)\<lparr>statement_type := table\<rparr>\<rparr>
           in (r, if do_commit then commit s' else s')))"

definition upsert_line_items :: "string list \<Rightarrow> session \<Rightarrow> (py_error + (string, nat) dict) \<times> session" where
  "upsert_line_items li_names s =
     (case upsert_names li_names (line_item (pending s)) of
        (r, do_commit, table) \<Rightarrow>
          (let s' = s\<lparr>pending := (pending s)\<lparr>line_item := table\<rparr>\<rparr>
           in (r, if do_commit then commit s' else s')))"

subsection \<open>Step 4: filings\<close>

text \<open>
  \<open>filings_to_create\<close>: the distinct \<open>(ticker, filing_date_parsed, fiscal_year,
  is_audited_bool)\<close> rows of the dataframe, the ticker then printed and uppercased and
  mapped to its company; rows without a company or without a date are skipped.
\<close>

definition filings_to_create :: "(string \<Rightarrow> pdate option) \<Rightarrow> (string, nat) dict \<Rightarrow> tidy_row list \<Rightarrow> filing_key list" where
  "filings_to_create parse_text existing_ticker_map df =
     concat (map (\<lambda>(t, d, fy, aud).
         (case (map_of existing_ticker_map (upper (str_cell t)), d) of
            (Some company_id, Some (Day day)) \<Rightarrow> [(company_id, day, fy, aud)]
          | _ \<Rightarrow> []))
       (unique (map (\<lambda>r. (df_ticker r, parse_date parse_text (df_filing_date r),
                           df_fiscal_year r, to_bool (df_is_audited r))) df)))"

text \<open>The filings of the companies involved, as the dict from natural key to id.\<close>

definition filings_query :: "filing_key list \<Rightarrow> filing_row list \<Rightarrow> (filing_key, nat) dict \<Rightarrow> (filing_key, nat) dict" where
  "filings_query to_create table d =
     dict_of (map (\<lambda>f. (snd f, fst f)) (filter (\<lambda>f. fst (snd f) \<in> fst ` set to_create) table)) d"

definition upsert_filings :: "filing_key list \<Rightarrow> session \<Rightarrow> (py_error + (filing_key, nat) dict) \<times> session" where
  "upsert_filings to_create s =
     (let existing_filing_map = (if to_create = [] then []
                                 else filings_query to_create (filing (pending s)) []);
          new_filings = filter (\<lambda>k. map_of existing_filing_map k = None) to_create
      in if new_filings = [] then (Inr existing_filing_map, s)
         else (case bulk_insert_filings new_filings (filing (pending s)) of
                 (Some e, table) \<Rightarrow> (Inl e, s\<lparr>pending := (pending s)\<lparr>filing := table\<rparr>\<rparr>)
               | (None, table) \<Rightarrow>
                   (let s' = commit (s\<lparr>pending := (pending s)\<lparr>filing := table\<rparr>\<rparr>)
                    in (Inr (filings_query to_create (filing (pending s')) existing_filing_map), s'))))"

subsection \<open>Step 5: facts\<close>

text \<open>
  One pass of the loop over the rows of the dataframe: the mapping to insert, or \<open>None\<close>
  where the loop has \<open>continue\<close>. The fallback takes the first key of the dict with the
  row's company and filing date.
\<close>

definition find_filing :: "(filing_key, nat) dict \<Rightarrow> nat option \<Rightarrow> pdate option \<Rightarrow> int option \<Rightarrow> bool option \<Rightarrow> nat option" where
  "find_filing existing_filing_map company_id filing_date fy is_aud =
     (case (company_id, filing_date) of
        (Some c, Some (Day d)) \<Rightarrow>
          (case map_of existing_filing_map (c, d, fy, is_aud) of
             Some fid \<Rightarrow> Some fid
           | None \<Rightarrow>
               (case filter (\<lambda>k. fst k = c \<and> fst (snd k) = d) (map fst existing_filing_map) of
                  [] \<Rightarrow> None
                | k # ks \<Rightarrow> map_of existing_filing_map k))
      | _ \<Rightarrow> None)"

definition fact_of_row :: "(string \<Rightarrow> pdate option) \<Rightarrow> (string, nat) dict \<Rightarrow> (string, nat) dict
    \<Rightarrow> (string, nat) dict \<Rightarrow> (filing_key, nat) dict \<Rightarrow> tidy_row \<Rightarrow> fact option" where
  "fact_of_row parse_text ticker_to_company_id stmtname_to_id lineitem_to_id existing_filing_map r =
     (case df_ticker r of
        None \<Rightarrow> None
      | Some t \<Rightarrow>
          (case find_filing existing_filing_map (map_of ticker_to_company_id (upper t))
                  (parse_date parse_text (df_filing_date r)) (df_fiscal_year r) (to_bool (df_is_audited r)) of
             None \<Rightarrow> None
           | Some fid \<Rightarrow>
               (case (df_statement_type r, df_line_item r) of
                  (Some stmt_name, Some line_item_name) \<Rightarrow>
                    (case (map_of stmtname_to_id stmt_name, map_of lineitem_to_id line_item_name) of
                       (Some stmt_id, Some li_id) \<Rightarrow>
                         Some \<lparr>filing_id = fid, statement_type_id = stmt_id, line_item_id = li_id,
                               period_type = df_period_type r,
                               end_date = parse_date parse_text (df_end_date r),
                               fact_value = (if df_value r = NaN then None else Some (df_value r))\<rparr>
                     | _ \<Rightarrow> None)
                | _ \<Rightarrow> None)))"

definition BATCH_SIZE :: nat where
  "BATCH_SIZE = 1000"

text \<open>
  \<open>for i in range(0, len(fact_rows), BATCH_SIZE)\<close>: each chunk is inserted and
  committed before the next one.
\<close>

function insert_fact_chunks :: "(fact \<Rightarrow> bool) \<Rightarrow> fact list \<Rightarrow> session \<Rightarrow> (py_error + unit) \<times> session" where
  "insert_fact_chunks db_accepts fact_rows s =
     (if fact_rows = [] then (Inr (), s)
      else (case bulk_insert_facts db_accepts (take BATCH_SIZE fact_rows) (financial_fact (pending s)) of
              (Some e, table) \<Rightarrow> (Inl e, s\<lparr>pending := (pending s)\<lparr>financial_fact := table\<rparr>\<rparr>)
            | (None, table) \<Rightarrow>
                insert_fact_chunks db_accepts (drop BATCH_SIZE fact_rows)
                  (commit (s\<lparr>pending := (pending s)\<lparr>financial_fact := table\<rparr>\<rparr>))))"
  by pat_completeness auto
termination
  by (relation "measure (\<lambda>(a, rows, s). length rows)") (auto simp: BATCH_SIZE_def)

subsection \<open>load_dataframe_to_db\<close>

text \<open>Sequencing inside the \<open>try\<close>: the first raise ends the block.\<close>

definition and_then :: "(session \<Rightarrow> (py_error + 'a) \<times> session) \<Rightarrow> ('a \<Rightarrow> session \<Rightarrow> (py_error + 'b) \<times> session)
    \<Rightarrow> session \<Rightarrow> (py_error + 'b) \<times> session" where
  "and_then m f s = (case m s of (Inl e, s') \<Rightarrow> (Inl e, s') | (Inr a, s') \<Rightarrow> f a s')"

text \<open>
  The body of the \<open>try\<close>. Its value is the line it logs: the sizes of the four dicts and
  the number of fact rows.
\<close>

definition load_body :: "(string \<Rightarrow> pdate option) \<Rightarrow> (fact \<Rightarrow> bool) \<Rightarrow> tidy_row list \<Rightarrow> session
    \<Rightarrow> (py_error + nat \<times> nat \<times> nat \<times> nat \<times> nat) \<times> session" where
  "load_body parse_text db_accepts df =
     and_then (upsert_companies (unique (map upper (dropna (map df_ticker df))))) (\<lambda>existing_ticker_map.
     and_then (upsert_statement_types (unique (dropna (map df_statement_type df)))) (\<lambda>existing_stmt_map.
     and_then (upsert_line_items (unique (dropna (map df_line_item df)))) (\<lambda>existing_li_map.
     and_then (upsert_filings (filings_to_create parse_text existing_ticker_map df)) (\<lambda>existing_filing_map.
       (let fact_rows = List.map_filter
              (fact_of_row parse_text existing_ticker_map existing_stmt_map existing_li_map existing_filing_map) df
        in and_then (insert_fact_chunks db_accepts fact_rows) (\<lambda>u s.
             (Inr (length existing_ticker_map, length existing_stmt_map, length existing_li_map,
                   length existing_filing_map, length fact_rows), s)))))))"

text \<open>
  \<open>load_dataframe_to_db\<close> on the store: a new session, the body, \<open>session.rollback()\<close>
  and the re-raise in the \<open>except\<close>, and what is committed when the session is closed.
\<close>

definition load_dataframe_to_db :: "(string \<Rightarrow> pdate option) \<Rightarrow> (fact \<Rightarrow> bool) \<Rightarrow> tidy_row list \<Rightarrow> oltp
    \<Rightarrow> (py_error + nat \<times> nat \<times> nat \<times> nat \<times> nat) \<times> oltp" where
  "load_dataframe_to_db parse_text db_accepts df store =
     (case load_body parse_text db_accepts df \<lparr>committed = store, pending = store\<rparr> of
        (Inl exc, s) \<Rightarrow> (Inl exc, committed (rollback s))
      | (Inr counts, s) \<Rightarrow> (Inr counts, committed s))"

section \<open>OLAP.py: the star schema\<close>

text \<open>
  The rows of \<open>company_dim\<close> are \<open>(company_key, cik, ticker, company_name)\<close>, of
  \<open>date_dim\<close> \<open>(date_key, date, year, quarter, month, day)\<close>, of \<open>statement_type_dim\<close>
  \<open>(statement_type_key, statement_type)\<close>; the first column is the primary key. The
  columns of \<open>fact_financials\<close> other than its key may be \<open>NULL\<close>. A table is the list
  of its rows; the checks count rows and do not see their order.
\<close>

type_synonym company_dim_row = "nat \<times> string \<times> string \<times> string"

type_synonym date_dim_row = "nat \<times> date \<times> nat \<times> nat \<times> nat \<times> nat"

record olap_fact =
  fact_id :: nat
  company_key :: "nat option"
  date_key :: "nat option"
  statement_type_key :: "nat option"
  ff_line_item_id :: "nat option"
  ff_value :: "pyfloat option"

record olap =
  company_dim :: "company_dim_row list"
  date_dim :: "date_dim_row list"
  statement_type_dim :: "name_row list"
  fact_financials :: "olap_fact list"

text \<open>The script of \<open>DROP TABLE IF EXISTS\<close> and \<open>CREATE TABLE\<close>: four empty tables.\<close>

definition drop_and_create :: "olap \<Rightarrow> olap" where
  "drop_and_create db =
     db\<lparr>fact_financials := [], company_dim := [], date_dim := [], statement_type_dim := []\<rparr>"

text \<open>\<open>INSERT OR REPLACE\<close> of one row: a row with the same primary key is deleted first.\<close>

definition insert_or_replace :: "nat \<times> 'a \<Rightarrow> (nat \<times> 'a) list \<Rightarrow> (nat \<times> 'a) list" where
  "insert_or_replace row table = filter (\<lambda>r. fst r \<noteq> fst row) table @ [row]"

text \<open>
  \<open>CAST(strftime('%Y%m%d', filing_date) AS INT)\<close> and the other columns of \<open>date_dim\<close>,
  for a calendar date as SQLAlchemy stores it (\<open>YYYY-MM-DD\<close>).
\<close>

definition date_key_of :: "date \<Rightarrow> nat" where
  "date_key_of d = (case d of (y, m, dd) \<Rightarrow> y * 10000 + m * 100 + dd)"

definition date_dim_row_of :: "date \<Rightarrow> date_dim_row" where
  "date_dim_row_of d = (case d of (y, m, dd) \<Rightarrow> (date_key_of d, d, y, (m - 1) div 3 + 1, m, dd))"

definition populate_company_dim :: "oltp \<Rightarrow> olap \<Rightarrow> olap" where
  "populate_company_dim store db =
     db\<lparr>company_dim := fold insert_or_replace
           (map (\<lambda>c. (fst c, str_nat (fst c), snd c, snd c)) (company store)) (company_dim db)\<rparr>"

definition populate_date_dim :: "oltp \<Rightarrow> olap \<Rightarrow> olap" where
  "populate_date_dim store db =
     db\<lparr>date_dim := fold insert_or_replace
           (unique (map (\<lambda>fl. date_dim_row_of (fst (snd (snd fl)))) (filing store))) (date_dim db)\<rparr>"

definition populate_statement_type_dim :: "oltp \<Rightarrow> olap \<Rightarrow> olap" where
  "populate_statement_type_dim store db =
     db\<lparr>statement_type_dim := fold insert_or_replace (statement_type store) (statement_type_dim db)\<rparr>"

text \<open>
  The \<open>SELECT\<close> of the fact table: \<open>financial_fact ff JOIN filing fl JOIN company f\<close>. The
  column \<open>statement_type_key\<close> is filled with \<open>fl.filing_id\<close>, as the source has it.
\<close>

definition fact_select :: "oltp \<Rightarrow> (nat \<times> nat \<times> nat \<times> nat \<times> pyfloat option) list" where
  "fact_select store =
     concat (map (\<lambda>ff.
       concat (map (\<lambda>fl.
         if filing_id (snd ff) \<noteq> fst fl then []
         else concat (map (\<lambda>f.
           if fst (snd fl) \<noteq> fst f then []
           else [(fst f, date_key_of (fst (snd (snd fl))), fst fl, line_item_id (snd ff), fact_value (snd ff))])
           (company store)))
         (filing store)))
       (financial_fact store))"

text \<open>\<open>INSERT INTO fact_financials\<close>: the key \<open>fact_id\<close> is generated.\<close>

definition insert_fact :: "nat \<times> nat \<times> nat \<times> nat \<times> pyfloat option \<Rightarrow> olap_fact list \<Rightarrow> olap_fact list" where
  "insert_fact row table =
     (case row of (ck, dk, sk, li, v) \<Rightarrow>
        table @ [\<lparr>fact_id = next_id (map fact_id table), company_key = Some ck, date_key = Some dk,
                   statement_type_key = Some sk, ff_line_item_id = Some li, ff_value = v\<rparr>])"

definition populate_fact_financials :: "oltp \<Rightarrow> olap \<Rightarrow> olap" where
  "populate_fact_financials store db =
     db\<lparr>fact_financials := fold insert_fact (fact_select store) (fact_financials db)\<rparr>"

definition create_and_populate_olap_schema_from_oltp :: "oltp \<Rightarrow> olap \<Rightarrow> olap" where
  "create_and_populate_olap_schema_from_oltp store db =
     populate_fact_financials store
       (populate_statement_type_dim store
         (populate_date_dim store
           (populate_company_dim store (drop_and_create db))))"

section \<open>quality_check.py\<close>

text \<open>\<open>date > DATE('now')\<close> on texts \<open>YYYY-MM-DD\<close>: year, then month, then day.\<close>

definition date_after :: "date \<Rightarrow> date \<Rightarrow> bool" where
  "date_after a b =
     (case (a, b) of ((y1, m1, d1), (y2, m2, d2)) \<Rightarrow>
        y2 < y1 \<or> (y1 = y2 \<and> (m2 < m1 \<or> (m1 = m2 \<and> d2 < d1))))"

text \<open>\<open>value <= 0\<close> in SQL: never true of \<open>NULL\<close>.\<close>

definition non_positive :: "pyfloat option \<Rightarrow> bool" where
  "non_positive v =
     (case v of
        None \<Rightarrow> False
      | Some (Finite q) \<Rightarrow> q \<le> 0
      | Some (Infinity pos) \<Rightarrow> \<not> pos
      | Some NaN \<Rightarrow> False)"

text \<open>
  The five queries, on the star schema and the attached normalized store; \<open>today\<close> is
  \<open>DATE('now')\<close>. The dict \<open>results\<close> gets its keys in this order.
\<close>

definition count_future_dates :: "date \<Rightarrow> olap \<Rightarrow> int" where
  "count_future_dates today db =
     int (length (filter (\<lambda>r. date_after (fst (snd r)) today) (date_dim db)))"

definition count_duplicate_fact_ids :: "olap \<Rightarrow> int" where
  "count_duplicate_fact_ids db =
     (let ids = map fact_id (fact_financials db)
      in int (length (filter (\<lambda>i. 1 < count_list ids i) (unique ids))))"

definition count_revenue_non_positive :: "olap \<Rightarrow> oltp \<Rightarrow> int" where
  "count_revenue_non_positive db store =
     int (length (concat (map (\<lambda>ff.
       filter (\<lambda>li. ff_line_item_id ff = Some (fst li) \<and> snd li = ''Revenue'' \<and> non_positive (ff_value ff))
         (line_item store))
       (fact_financials db))))"

definition count_missing_required_metrics :: "olap \<Rightarrow> int" where
  "count_missing_required_metrics db =
     (let facts = fact_financials db
      in int (length (filter
           (\<lambda>g. list_ex (\<lambda>ff. (company_key ff, date_key ff) = g \<and> ff_line_item_id ff = None) facts)
           (unique (map (\<lambda>ff. (company_key ff, date_key ff)) facts)))))"

definition count_orphaned_company_refs :: "olap \<Rightarrow> int" where
  "count_orphaned_company_refs db =
     int (length (filter (\<lambda>ff. \<not> list_ex (\<lambda>cd. company_key ff = Some (fst cd)) (company_dim db))
       (fact_financials db)))"

definition run_quality_checks :: "date \<Rightarrow> olap \<Rightarrow> oltp \<Rightarrow> (string, int) dict" where
  "run_quality_checks today db store =
     AList.update ''orphaned_company_refs'' (count_orphaned_company_refs db)
       (AList.update ''missing_required_metrics'' (count_missing_required_metrics db)
         (AList.update ''revenue_non_positive'' (count_revenue_non_positive db store)
           (AList.update ''duplicate_fact_ids'' (count_duplicate_fact_ids db)
             (AList.update ''future_dates'' (count_future_dates today db) []))))"

section \<open>Notions of the specification\<close>

text \<open>"Contains", as the specification uses it: the needle is a contiguous part.\<close>

definition is_substring :: "string \<Rightarrow> string \<Rightarrow> bool" where
  "is_substring needle s = (\<exists>pre suf. s = pre @ needle @ suf)"

text \<open>A text whose last four characters are digits.\<close>

definition ends_in_year :: "string \<Rightarrow> bool" where
  "ends_in_year t = (\<exists>pre d. t = pre @ d \<and> length d = 4 \<and> list_all is_digit d)"

text \<open>
  The filename convention: capitals, an underscore, eight digits, an underscore, and
  the rest of the name.
\<close>

definition follows_convention :: "string \<Rightarrow> bool" where
  "follows_convention name =
     (\<exists>ticker digits rest. name = ticker @ ''_'' @ digits @ ''_'' @ rest \<and> ticker \<noteq> []
        \<and> list_all is_upper ticker \<and> length digits = 8 \<and> list_all is_digit digits)"

text \<open>The characters of a decimal number as \<open>float\<close> reads it.\<close>

definition float_char :: "char \<Rightarrow> bool" where
  "float_char c = (is_digit c \<or> c = CHR ''_'' \<or> c = CHR ''.'' \<or> c = CHR ''e'' \<or> c = CHR ''E''
     \<or> c = CHR ''+'' \<or> c = CHR ''-'')"

text \<open>
  The fact rows of the chunks before the first chunk with a row the database refuses:
  what the loop over the chunks has committed when it ends or raises.
\<close>

function committed_chunks :: "(fact \<Rightarrow> bool) \<Rightarrow> fact list \<Rightarrow> fact list" where
  "committed_chunks db_accepts fact_rows =
     (if fact_rows = [] \<or> \<not> list_all db_accepts (take BATCH_SIZE fact_rows) then []
      else take BATCH_SIZE fact_rows @ committed_chunks db_accepts (drop BATCH_SIZE fact_rows))"
  by pat_completeness auto
termination
  by (relation "measure (\<lambda>(a, rows). length rows)") (auto simp: BATCH_SIZE_def)

subsection \<open>Example data\<close>

text \<open>
  A date parser that knows the two dates of the example and gives \<open>NaT\<close> otherwise, a
  row of a balance sheet, the same row with an end date that is no calendar date, a
  database that refuses a fact whose end date is \<open>NaT\<close>, and the empty store.
\<close>

definition example_parse_text :: "string \<Rightarrow> pdate option" where
  "example_parse_text s =
     (if s = ''2025-08-13'' then Some (Day (2025, 8, 13))
      else if s = ''June 30, 2025'' then Some (Day (2025, 6, 30))
      else Some NaT)"

definition example_row :: tidy_row where
  "example_row = \<lparr>df_ticker = Some ''CATX'', df_filing_date = Some ''2025-08-13'',
     df_statement_type = Some ''Balance Sheet'', df_line_item = Some ''Total Assets'',
     df_period_type = Some ''Point-in-Time'', df_end_date = Some ''June 30, 2025'',
     df_fiscal_year = Some 2025, df_is_audited = Some True, df_value = Finite (- 271381)\<rparr>"

definition example_bad_row :: tidy_row where
  "example_bad_row = example_row\<lparr>df_end_date := Some ''February 30, 2025''\<rparr>"

definition example_db_accepts :: "fact \<Rightarrow> bool" where
  "example_db_accepts f = (end_date f \<noteq> Some NaT)"

definition empty_store :: oltp where
  "empty_store = \<lparr>company = [], filing = [], statement_type = [], line_item = [], financial_fact = []\<rparr>"

text \<open>
  A batch of 1001 rows, the last with the bad end date; the sessions after each of
  the first four steps of the loader on it; and the fact of a row.
\<close>

definition example_batch :: "tidy_row list" where
  "example_batch = replicate 1000 example_row @ [example_bad_row]"

definition example_session :: "nat \<Rightarrow> session" where
  "example_session stage =
     (let store = \<lparr>company = (if 1 \<le> stage then [(1, ''CATX'')] else []),
                   filing = (if 4 \<le> stage then [(1, 1, (2025, 8, 13), Some 2025, Some True)] else []),
                   statement_type = (if 2 \<le> stage then [(1, ''Balance Sheet'')] else []),
                   line_item = (if 3 \<le> stage then [(1, ''Total Assets'')] else []),
                   financial_fact = []\<rparr>
      in \<lparr>committed = store, pending = store\<rparr>)"

definition example_fact :: "pdate \<Rightarrow> fact" where
  "example_fact d = \<lparr>filing_id = 1, statement_type_id = 1, line_item_id = 1,
     period_type = Some ''Point-in-Time'', end_date = Some d,
     fact_value = Some (Finite (- 271381))\<rparr>"

section \<open>Period parser and metadata extractor\<close>



lemma startswith_iff: "startswith s pre = (\<exists>suf. s = pre @ suf)"
  unfolding startswith_def
  by (metis append_eq_conv_conj append_take_drop_id)

lemma contains_iff: "contains s needle = is_substring needle s"
proof (induction s)
  case Nil
  then show ?case by (auto simp: is_substring_def)
next
  case (Cons c cs)
  show ?case
  proof
    assume "contains (c # cs) needle"
    then consider "startswith (c # cs) needle" | "contains cs needle" by auto
    then show "is_substring needle (c # cs)"
    proof cases
      case 1
      then obtain suf where "c # cs = needle @ suf" by (auto simp: startswith_iff)
      then have "c # cs = [] @ needle @ suf" by simp
      then show ?thesis unfolding is_substring_def by blast
    next
      case 2
      then obtain pre suf where "cs = pre @ needle @ suf" using Cons.IH by (auto simp: is_substring_def)
      then have "c # cs = (c # pre) @ needle @ suf" by simp
      then show ?thesis unfolding is_substring_def by blast
    qed
  next
    assume "is_substring needle (c # cs)"
    then obtain pre suf where e: "c # cs = pre @ needle @ suf" by (auto simp: is_substring_def)
    show "contains (c # cs) needle"
    proof (cases pre)
      case Nil
      then have "startswith (c # cs) needle" using e unfolding startswith_iff by auto
      then show ?thesis by simp
    next
      case (Cons a pre')
      then have "cs = pre' @ needle @ suf" using e by simp
      then have "is_substring needle cs" unfolding is_substring_def by blast
      then show ?thesis using Cons.IH by simp
    qed
  qed
qed

lemma match_digits_Some: "match_digits n s = Some g \<Longrightarrow> length g = n \<and> list_all is_digit g"
  by (auto simp: match_digits_def split: if_splits)

lemma match_digits_append: "length d = n \<Longrightarrow> list_all is_digit d \<Longrightarrow> match_digits n (d @ suf) = Some d"
  by (simp add: match_digits_def)

lemma re_search_append: "pat rest \<noteq> None \<Longrightarrow> re_search pat (pre @ rest) \<noteq> None"
proof (induction pre)
  case Nil
  then show ?case by (cases rest) (auto split: option.splits)
next
  case (Cons a pre)
  then show ?case by (auto split: option.splits)
qed

lemma re_search_Some: "re_search pat s = Some g \<Longrightarrow> \<exists>pre rest. s = pre @ rest \<and> pat rest = Some g"
proof (induction s)
  case Nil
  then show ?case by simp
next
  case (Cons c cs)
  show ?case
  proof (cases "pat (c # cs)")
    case None
    then have "re_search pat cs = Some g" using Cons.prems by simp
    then obtain pre rest where "cs = pre @ rest" "pat rest = Some g" using Cons.IH by blast
    then have "c # cs = (c # pre) @ rest \<and> pat rest = Some g" by simp
    then show ?thesis by blast
  next
    case (Some a)
    then have "c # cs = [] @ (c # cs) \<and> pat (c # cs) = Some g" using Cons.prems by simp
    then show ?thesis by blast
  qed
qed


lemma ends_in_year_append: "ends_in_year t \<Longrightarrow> ends_in_year (a @ t)"
  unfolding ends_in_year_def by (metis append.assoc)

lemma match_year_tail_year: "match_year_tail s = Some t \<Longrightarrow> ends_in_year t"
proof -
  assume a: "match_year_tail s = Some t"
  define comma where "comma = (if startswith s '','' then '','' else [])"
  define s1 where "s1 = drop (length comma) s"
  obtain y where y: "match_digits 4 (dropWhile is_space s1) = Some y"
    and t: "t = comma @ takeWhile is_space s1 @ y"
    using a unfolding match_year_tail_def Let_def comma_def s1_def
    by (auto split: option.splits)
  have "length y = 4 \<and> list_all is_digit y"
    using match_digits_Some [OF y] .
  then have "t = (comma @ takeWhile is_space s1) @ y \<and> length y = 4 \<and> list_all is_digit y"
    using t by simp
  then show ?thesis unfolding ends_in_year_def by blast
qed

lemma match_day_tail_year: "match_day_tail s = Some t \<Longrightarrow> ends_in_year t"
proof -
  assume a: "match_day_tail s = Some t"
  then obtain d s' t' where "t = d @ t'" "match_year_tail s' = Some t'"
    unfolding match_day_tail_def by (auto split: option.splits)
  then show ?thesis using match_year_tail_year ends_in_year_append by blast
qed

lemma match_month_date_year: "match_month_date s = Some t \<Longrightarrow> ends_in_year t"
proof -
  assume a: "match_month_date s = Some t"
  then obtain m s' t' where "t = m @ takeWhile is_space (drop (length m) s) @ t'"
    "match_day_tail s' = Some t'"
    unfolding match_month_date_def Let_def by (auto split: option.splits if_splits)
  then show ?thesis using match_day_tail_year ends_in_year_append by blast
qed

lemma search_year_in_date: "ends_in_year t \<Longrightarrow> re_search (match_digits 4) t \<noteq> None"
  unfolding ends_in_year_def
  by (metis append_Nil2 match_digits_append option.distinct(1) re_search_append)

lemma py_int_digits: "match_digits 4 s = Some g \<Longrightarrow> \<exists>y. py_int g = Inr y"
  by (auto simp: py_int_def dest!: match_digits_Some)

lemma re_search_digits_int: "re_search (match_digits 4) s = Some g \<Longrightarrow> \<exists>y. py_int g = Inr y"
  by (metis py_int_digits re_search_Some)

text \<open>
  Claim C3. The period parser never raises: for every label it returns its four values,
  and the period type is the first of "Three Months", "Six Months", "Year Ended" that
  the label contains (case-sensitive), else "Point-in-Time".
\<close>

theorem parse_period_total:
  "\<exists>end_date unaudited fiscal_year.
     parse_period p =
       Inr (if is_substring ''Three Months'' p then ''Three Months''
            else if is_substring ''Six Months'' p then ''Six Months''
            else if is_substring ''Year Ended'' p then ''Year Ended''
            else ''Point-in-Time'',
            end_date, unaudited, fiscal_year)"
proof (cases "re_search match_month_date p")
  case None
  show ?thesis
  proof (cases "re_search (match_digits 4) p")
    case N2: None
    then show ?thesis using None
      by (simp add: parse_period_def period_type_of_def contains_iff)
  next
    case (Some g)
    then obtain y where "py_int g = Inr y" using re_search_digits_int by blast
    then show ?thesis using None Some
      by (simp add: parse_period_def period_type_of_def contains_iff)
  qed
next
  case (Some end_date)
  then obtain pre rest where "match_month_date rest = Some end_date"
    using re_search_Some by blast
  then have "re_search (match_digits 4) end_date \<noteq> None"
    using match_month_date_year search_year_in_date by blast
  then obtain g where g: "re_search (match_digits 4) end_date = Some g" by blast
  then obtain y where "py_int g = Inr y" using re_search_digits_int by blast
  then show ?thesis using Some g
    by (simp add: parse_period_def period_type_of_def contains_iff)
qed

theorem parse_period_total_witness:
  "\<exists>end_date unaudited fiscal_year.
     parse_period ''Six Months Ended June 30, 2025'' =
       Inr (''Six Months'', end_date, unaudited, fiscal_year)"
proof -
  have a: "\<not> is_substring ''Three Months'' ''Six Months Ended June 30, 2025''"
    unfolding contains_iff [symmetric] by code_simp
  have b: "is_substring ''Six Months'' ''Six Months Ended June 30, 2025''"
    unfolding contains_iff [symmetric] by code_simp
  show ?thesis
    using parse_period_total [of "''Six Months Ended June 30, 2025''"] a b by simp
qed


lemma is_upper_underscore: "\<not> is_upper (CHR ''_'')"
  by (simp add: is_upper_def)

lemma match_filename_conv:
  assumes "s = ticker @ ''_'' @ digits @ ''_'' @ rest"
    and "ticker \<noteq> []" and "list_all is_upper ticker"
    and "length digits = 8" and "list_all is_digit digits"
  shows "match_filename s = Some (ticker, digits)"
proof -
  have all: "\<And>x. x \<in> set ticker \<Longrightarrow> is_upper x"
    using assms(3) by (simp add: list_all_iff)
  have s: "s = ticker @ CHR ''_'' # (digits @ ''_'' @ rest)"
    using assms(1) by simp
  have tw: "takeWhile is_upper s = ticker"
    unfolding s using all is_upper_underscore by (simp add: takeWhile_append2)
  have dw: "dropWhile is_upper s = CHR ''_'' # (digits @ ''_'' @ rest)"
    unfolding s using all is_upper_underscore by (simp add: dropWhile_append2)
  have md: "match_digits 8 (digits @ ''_'' @ rest) = Some digits"
    using assms(4,5) by (rule match_digits_append)
  show ?thesis
    unfolding match_filename_def Let_def tw dw
    using assms(2,4) md by (simp add: startswith_def)
qed

lemma match_filename_Some:
  assumes "match_filename s = Some (ticker, digits)"
  shows "\<exists>rest. s = ticker @ ''_'' @ digits @ ''_'' @ rest \<and> ticker \<noteq> [] \<and> list_all is_upper ticker
     \<and> length digits = 8 \<and> list_all is_digit digits"
proof -
  define s1 where "s1 = dropWhile is_upper s"
  have t: "ticker = takeWhile is_upper s" and ne: "ticker \<noteq> []"
    and u: "startswith s1 ''_''"
    and md: "match_digits 8 (drop 1 s1) = Some digits"
    and u2: "startswith (drop 9 s1) ''_''"
    using assms unfolding match_filename_def Let_def s1_def
    by (auto split: if_splits option.splits)
  have d: "length digits = 8 \<and> list_all is_digit digits"
    using match_digits_Some [OF md] .
  have dt: "digits = take 8 (drop 1 s1)"
    using md by (auto simp: match_digits_def split: if_splits)
  obtain r1 where r1: "s1 = ''_'' @ r1" using u unfolding startswith_iff by blast
  obtain r2 where r2: "drop 9 s1 = ''_'' @ r2" using u2 unfolding startswith_iff by blast
  have "r1 = take 8 r1 @ drop 8 r1" by simp
  moreover have "drop 8 r1 = ''_'' @ r2" using r1 r2 by simp
  moreover have "take 8 r1 = digits" using dt r1 by simp
  ultimately have "s1 = ''_'' @ digits @ ''_'' @ r2" using r1 by simp
  moreover have "s = ticker @ s1" unfolding t s1_def by simp
  moreover have "list_all is_upper ticker"
    unfolding t list_all_iff using set_takeWhileD by fastforce
  ultimately show ?thesis using ne d by auto
qed


text \<open>
  Claim C4. When the base name of the path is capitals, an underscore, eight digits,
  an underscore and a rest, the metadata extractor returns the capitals unchanged as
  the ticker and the digits as YYYY-MM-DD; when the base name is not of that form it
  raises \<open>ValueError\<close> (the specification's PatternMismatch).
\<close>

theorem extract_metadata_convention:
  "(basename path = ticker @ ''_'' @ (y @ m @ d) @ ''_'' @ rest \<and> ticker \<noteq> []
      \<and> list_all is_upper ticker \<and> list_all is_digit (y @ m @ d)
      \<and> length y = 4 \<and> length m = 2 \<and> length d = 2
     \<longrightarrow> extract_metadata path = Inr (ticker, y @ ''-'' @ m @ ''-'' @ d))
   \<and> (\<not> follows_convention (basename path) \<longrightarrow> extract_metadata path = Inl ValueError)"
proof (intro conjI impI)
  assume a: "basename path = ticker @ ''_'' @ (y @ m @ d) @ ''_'' @ rest \<and> ticker \<noteq> []
      \<and> list_all is_upper ticker \<and> list_all is_digit (y @ m @ d)
      \<and> length y = 4 \<and> length m = 2 \<and> length d = 2"
  then have "match_filename (basename path) = Some (ticker, y @ m @ d)"
    by (intro match_filename_conv) auto
  then show "extract_metadata path = Inr (ticker, y @ ''-'' @ m @ ''-'' @ d)"
    using a by (simp add: extract_metadata_def)
next
  assume n: "\<not> follows_convention (basename path)"
  have "match_filename (basename path) = None"
  proof (cases "match_filename (basename path)")
    case None
    then show ?thesis .
  next
    case (Some td)
    obtain t dg where "td = (t, dg)" by (cases td)
    then have "follows_convention (basename path)"
      using match_filename_Some Some unfolding follows_convention_def by blast
    then show ?thesis using n by simp
  qed
  then show "extract_metadata path = Inl ValueError"
    by (simp add: extract_metadata_def)
qed

lemma basename_ex: "basename ''reports/CATX_20250813_QR.html'' = ''CATX'' @ ''_'' @ (''2025'' @ ''08'' @ ''13'') @ ''_'' @ ''QR.html''"
  by code_simp

lemma not_conv_ex: "\<not> follows_convention (basename ''reports/catx_20250813_QR.html'')"
proof
  assume "follows_convention (basename ''reports/catx_20250813_QR.html'')"
  then obtain ticker digits rest where
    e: "basename ''reports/catx_20250813_QR.html'' = ticker @ ''_'' @ digits @ ''_'' @ rest"
    and ne: "ticker \<noteq> []" and up: "list_all is_upper ticker"
    unfolding follows_convention_def by blast
  have b: "basename ''reports/catx_20250813_QR.html'' = ''catx_20250813_QR.html''"
    by code_simp
  obtain c cs where tc: "ticker = c # cs" using ne by (cases ticker) auto
  then have "c = CHR ''c''" using e b by simp
  then show False using up tc by (simp add: is_upper_def)
qed

theorem extract_metadata_convention_witness:
  "extract_metadata ''reports/CATX_20250813_QR.html'' = Inr (''CATX'', ''2025-08-13'')
   \<and> extract_metadata ''reports/catx_20250813_QR.html'' = Inl ValueError"
proof
  have u: "list_all is_upper ''CATX''" by code_simp
  have dg: "list_all is_digit (''2025'' @ ''08'' @ ''13'')" by code_simp
  show "extract_metadata ''reports/CATX_20250813_QR.html'' = Inr (''CATX'', ''2025-08-13'')"
    using extract_metadata_convention [of "''reports/CATX_20250813_QR.html''" "''CATX''" "''2025''" "''08''" "''13''" "''QR.html''"]
      basename_ex u dg by simp
  show "extract_metadata ''reports/catx_20250813_QR.html'' = Inl ValueError"
    using extract_metadata_convention [of "''reports/catx_20250813_QR.html''" "''CATX''" "''2025''" "''08''" "''13''" "''QR.html''"]
      not_conv_ex by blast
qed

text \<open>
  Claim C10. The eight digits are not checked against the calendar: whatever digits
  stand there, the extractor succeeds with digits[0:4]-digits[4:6]-digits[6:8], and
  \<open>XYZ_99999999_a.html\<close> gives the filing date \<open>9999-99-99\<close>.
\<close>

theorem extract_metadata_no_calendar_check:
  "(basename path = ticker @ ''_'' @ digits @ ''_'' @ rest \<and> ticker \<noteq> []
      \<and> list_all is_upper ticker \<and> length digits = 8 \<and> list_all is_digit digits
     \<longrightarrow> extract_metadata path =
          Inr (ticker, take 4 digits @ ''-'' @ take 2 (drop 4 digits) @ ''-'' @ drop 6 digits))
   \<and> extract_metadata ''XYZ_99999999_a.html'' = Inr (''XYZ'', ''9999-99-99'')"
proof (intro conjI impI)
  assume a: "basename path = ticker @ ''_'' @ digits @ ''_'' @ rest \<and> ticker \<noteq> []
      \<and> list_all is_upper ticker \<and> length digits = 8 \<and> list_all is_digit digits"
  then have "match_filename (basename path) = Some (ticker, digits)"
    by (intro match_filename_conv) auto
  then show "extract_metadata path =
      Inr (ticker, take 4 digits @ ''-'' @ take 2 (drop 4 digits) @ ''-'' @ drop 6 digits)"
    by (simp add: extract_metadata_def)
next
  show "extract_metadata ''XYZ_99999999_a.html'' = Inr (''XYZ'', ''9999-99-99'')"
    by code_simp
qed

lemma basename_ex2: "basename ''XYZ_20251340_a.html'' = ''XYZ'' @ ''_'' @ ''20251340'' @ ''_'' @ ''a.html''"
  by code_simp

theorem extract_metadata_no_calendar_check_witness:
  "extract_metadata ''XYZ_20251340_a.html'' = Inr (''XYZ'', ''2025-13-40'')"
proof -
  have u: "list_all is_upper ''XYZ''" by code_simp
  have dg: "list_all is_digit ''20251340''" by code_simp
  show ?thesis
    using extract_metadata_no_calendar_check [of "''XYZ_20251340_a.html''" "''XYZ''" "''20251340''" "''a.html''"]
      basename_ex2 u dg by simp
qed

section \<open>Column de-duplication\<close>

text \<open>
  Claim C6. \<open>make_unique\<close> renames later duplicates with the suffixes \<open>_1\<close>, \<open>_2\<close>, ...
  and is meant to return pairwise distinct names. It does not when a suffixed name
  is itself among the headers: the second \<open>2025\<close> becomes \<open>2025_1\<close>, and the header
  \<open>2025_1\<close> that follows is a first occurrence and keeps its name.
\<close>

theorem make_unique_collision:
  "make_unique [''Line Item'', ''2025'', ''2025'', ''2025_1'']
     = [''Line Item'', ''2025'', ''2025_1'', ''2025_1'']
   \<and> \<not> distinct (make_unique [''Line Item'', ''2025'', ''2025'', ''2025_1''])"
proof -
  have e: "make_unique [''Line Item'', ''2025'', ''2025'', ''2025_1'']
     = [''Line Item'', ''2025'', ''2025_1'', ''2025_1'']"
    by code_simp
  show ?thesis unfolding e by simp
qed

section \<open>Header reconstruction\<close>


lemma build_header_Inr:
  assumes "df \<noteq> []"
  shows "build_header df = Inr (zip (''Line Item'' # tl (map header_of df)) (map (drop 3) df))"
proof -
  have "length (''Line Item'' # tl (map header_of df)) = length df"
    using assms by (cases df) auto
  then show ?thesis unfolding build_header_def Let_def by simp
qed

lemma header_of_two: "header_of (c0 # c1 # rest) = strip (fillna_str c0 @ '' '' @ fillna_str c1)"
  by (simp add: header_of_def)

text \<open>
  Claim C7, as the code has it. For a frame with at least one column the header
  reconstruction succeeds; column 0 is named "Line Item"; every other column is named
  by its first two cells joined with a blank and stripped at both ends; and the data
  is every row from the fourth on, in order: the third row goes with the two header
  rows.
\<close>

theorem build_header_drops_three_rows:
  assumes "df \<noteq> []"
  shows "\<exists>frame. build_header df = Inr frame \<and> length frame = length df
     \<and> fst (frame ! 0) = ''Line Item''
     \<and> (\<forall>j c0 c1 rest. 0 < j \<and> j < length df \<and> df ! j = c0 # c1 # rest
            \<longrightarrow> fst (frame ! j) = strip (fillna_str c0 @ '' '' @ fillna_str c1))
     \<and> (\<forall>j. j < length df \<longrightarrow> length (snd (frame ! j)) = length (df ! j) - 3)
     \<and> (\<forall>j i. j < length df \<and> i + 3 < length (df ! j) \<longrightarrow> snd (frame ! j) ! i = df ! j ! (i + 3))"
proof -
  define names where "names = ''Line Item'' # tl (map header_of df)"
  define frame where "frame = zip names (map (drop 3) df)"
  have len: "length names = length df"
    using assms unfolding names_def by (cases df) auto
  have b: "build_header df = Inr frame"
    unfolding frame_def names_def using build_header_Inr [OF assms] .
  have l: "length frame = length df" unfolding frame_def using len by simp
  have f0: "fst (frame ! 0) = ''Line Item''"
    unfolding frame_def using len assms by (simp add: names_def)
  have nm: "fst (frame ! j) = header_of (df ! j)" if "0 < j" "j < length df" for j
  proof -
    have "fst (frame ! j) = names ! j" unfolding frame_def using that len by simp
    also have "\<dots> = tl (map header_of df) ! (j - 1)"
      unfolding names_def using that by (cases j) auto
    also have "\<dots> = map header_of df ! j"
      using that by (simp add: nth_tl)
    finally show ?thesis using that by simp
  qed
  have dt: "snd (frame ! j) = drop 3 (df ! j)" if "j < length df" for j
    unfolding frame_def using that len by simp
  show ?thesis
  proof (intro exI conjI allI impI)
    show "build_header df = Inr frame" by (rule b)
    show "length frame = length df" by (rule l)
    show "fst (frame ! 0) = ''Line Item''" by (rule f0)
  next
    fix j c0 c1 rest
    assume "0 < j \<and> j < length df \<and> df ! j = c0 # c1 # rest"
    then show "fst (frame ! j) = strip (fillna_str c0 @ '' '' @ fillna_str c1)"
      using nm [of j] header_of_two by simp
  next
    fix j assume "j < length df"
    then show "length (snd (frame ! j)) = length (df ! j) - 3" using dt by simp
  next
    fix j i assume "j < length df \<and> i + 3 < length (df ! j)"
    then show "snd (frame ! j) ! i = df ! j ! (i + 3)" using dt by (simp add: add.commute)
  qed
qed

text \<open>
  Claim C7 as stated (the data is every row after the first two) fails on a frame of
  three rows: its third row is not in the data.
\<close>

theorem build_header_all_rows_counterexample:
  "\<not> (\<forall>df frame. build_header df = Inr frame \<longrightarrow> map snd frame = map (drop 2) df)"
proof
  assume a: "\<forall>df frame. build_header df = Inr frame \<longrightarrow> map snd frame = map (drop 2) df"
  have "build_header [[Some ''Assets'', None, Some ''Cash''], [Some ''June 30'', Some ''2025'', Some ''100'']]
      = Inr [(''Line Item'', []), (''June 30 2025'', [])]"
    by code_simp
  then have "map snd [(''Line Item'', []), (''June 30 2025'', [] :: cell list)]
      = map (drop 2) [[Some ''Assets'', None, Some ''Cash''], [Some ''June 30'', Some ''2025'', Some ''100'']]"
    using a by blast
  then show False by simp
qed

theorem build_header_drops_three_rows_witness:
  "\<exists>frame. build_header [[Some ''Assets'', None, None, Some ''Cash''],
                           [Some ''June 30'', Some ''2025'', Some ''(unaudited)'', Some ''100'']] = Inr frame
     \<and> fst (frame ! 0) = ''Line Item''
     \<and> fst (frame ! 1) = ''June 30 2025''
     \<and> snd (frame ! 1) ! 0 = Some ''100''
     \<and> length (snd (frame ! 1)) = 1"
proof -
  let ?df = "[[Some ''Assets'', None, None, Some ''Cash''],
              [Some ''June 30'', Some ''2025'', Some ''(unaudited)'', Some ''100'']]"
  have ne: "?df \<noteq> []" by simp
  obtain frame where f: "build_header ?df = Inr frame" "fst (frame ! 0) = ''Line Item''"
    and h: "\<forall>j c0 c1 rest. 0 < j \<and> j < length ?df \<and> ?df ! j = c0 # c1 # rest
            \<longrightarrow> fst (frame ! j) = strip (fillna_str c0 @ '' '' @ fillna_str c1)"
    and l: "\<forall>j. j < length ?df \<longrightarrow> length (snd (frame ! j)) = length (?df ! j) - 3"
    and d: "\<forall>j i. j < length ?df \<and> i + 3 < length (?df ! j) \<longrightarrow> snd (frame ! j) ! i = ?df ! j ! (i + 3)"
    using build_header_drops_three_rows [OF ne] by blast
  have s: "strip (fillna_str (Some ''June 30'') @ '' '' @ fillna_str (Some ''2025'')) = ''June 30 2025''"
    by code_simp
  have "fst (frame ! 1) = ''June 30 2025''"
    using h [rule_format, of 1 "Some ''June 30''" "Some ''2025''" "[Some ''(unaudited)'', Some ''100'']"] s
    by simp
  moreover have "snd (frame ! 1) ! 0 = Some ''100''"
    using d [rule_format, of 1 0] by simp
  moreover have "length (snd (frame ! 1)) = 1"
    using l [rule_format, of 1] by simp
  ultimately show ?thesis using f by blast
qed

section \<open>Numeric cleaning and reshape\<close>



lemma valid_digitpart_chars: "valid_digitpart s \<Longrightarrow> list_all float_char s"
  unfolding valid_digitpart_def list_all_iff float_char_def by auto

lemma valid_digitpart_hd: "valid_digitpart s \<Longrightarrow> s \<noteq> [] \<and> is_digit (hd s)"
  unfolding valid_digitpart_def by simp

lemma split_at_char: "s = takeWhile (\<lambda>c. \<not> P c) s @ dropWhile (\<lambda>c. \<not> P c) s"
  by simp

lemma dropWhile_hd: "dropWhile (\<lambda>c. \<not> P c) s \<noteq> [] \<Longrightarrow> P (hd (dropWhile (\<lambda>c. \<not> P c) s))"
  using hd_dropWhile [of "\<lambda>c. \<not> P c" s] by simp

lemma parse_mantissa_chars:
  assumes "parse_mantissa s = Some q"
  shows "list_all float_char s \<and> s \<noteq> [] \<and> (is_digit (hd s) \<or> hd s = CHR ''.'')"
proof -
  define ip where "ip = takeWhile (\<lambda>c. c \<noteq> CHR ''.'') s"
  define rest where "rest = dropWhile (\<lambda>c. c \<noteq> CHR ''.'') s"
  have s: "s = ip @ rest" unfolding ip_def rest_def by simp
  show ?thesis
  proof (cases "rest = []")
    case True
    then have "valid_digitpart ip"
      using assms unfolding parse_mantissa_def Let_def ip_def rest_def by (auto split: if_splits)
    then show ?thesis using s True valid_digitpart_chars valid_digitpart_hd by auto
  next
    case False
    then have hd: "hd rest = CHR ''.''"
      unfolding rest_def using hd_dropWhile [of "\<lambda>c. c \<noteq> CHR ''.''" s] by auto
    then have r: "rest = CHR ''.'' # tl rest" using False by (cases rest) auto
    have v: "(ip = [] \<and> valid_digitpart (tl rest))
        \<or> (valid_digitpart ip \<and> (tl rest = [] \<or> valid_digitpart (tl rest)))"
      using assms False unfolding parse_mantissa_def Let_def ip_def rest_def
      by (auto split: if_splits)
    have ipc: "list_all float_char ip"
      using v valid_digitpart_chars by auto
    have fpc: "list_all float_char (tl rest)"
      using v valid_digitpart_chars by auto
    have "float_char (CHR ''.'')" by (simp add: float_char_def)
    then have "list_all float_char (CHR ''.'' # tl rest)" using fpc by simp
    then have "list_all float_char rest" using r by simp
    then have all: "list_all float_char s" using s ipc by simp
    have "s \<noteq> []" using s False by simp
    moreover have "is_digit (hd s) \<or> hd s = CHR ''.''"
    proof (cases "ip = []")
      case True
      then show ?thesis using s hd by simp
    next
      case F2: False
      then have "valid_digitpart ip" using v by auto
      then show ?thesis using s F2 valid_digitpart_hd by (simp add: hd_append)
    qed
    ultimately show ?thesis using all by simp
  qed
qed

lemma parse_exponent_chars:
  assumes "parse_exponent s = Some e"
  shows "list_all float_char s"
proof -
  obtain neg ds where p: "parse_sign s = (neg, ds)" by (cases "parse_sign s")
  then have v: "valid_digitpart ds"
    using assms unfolding parse_exponent_def by (auto split: if_splits)
  then have c: "list_all float_char ds" by (rule valid_digitpart_chars)
  have "s = ds \<or> s = CHR ''-'' # ds \<or> s = CHR ''+'' # ds"
    using p unfolding parse_sign_def startswith_def
    by (cases s) (auto split: if_splits)
  then show ?thesis using c by (auto simp: float_char_def)
qed

lemma parse_floatnumber_chars:
  assumes "parse_floatnumber s = Some q"
  shows "list_all float_char s \<and> s \<noteq> [] \<and> (is_digit (hd s) \<or> hd s = CHR ''.'')"
proof -
  define is_e where "is_e = (\<lambda>c. c = CHR ''e'' \<or> c = CHR ''E'')"
  define m where "m = takeWhile (\<lambda>c. \<not> is_e c) s"
  define rest where "rest = dropWhile (\<lambda>c. \<not> is_e c) s"
  have s: "s = m @ rest" unfolding m_def rest_def by simp
  obtain q0 where q0: "parse_mantissa m = Some q0"
    using assms unfolding parse_floatnumber_def Let_def m_def is_e_def
    by (auto split: option.splits)
  have mc: "list_all float_char m \<and> m \<noteq> [] \<and> (is_digit (hd m) \<or> hd m = CHR ''.'')"
    using parse_mantissa_chars [OF q0] .
  have rc: "list_all float_char rest"
  proof (cases "rest = []")
    case True
    then show ?thesis by simp
  next
    case False
    then have "is_e (hd rest)" unfolding rest_def by (rule dropWhile_hd)
    then have h: "float_char (hd rest)" unfolding is_e_def float_char_def by auto
    obtain e where "parse_exponent (tl rest) = Some e"
      using assms False q0 unfolding parse_floatnumber_def Let_def m_def rest_def is_e_def
      by (auto split: option.splits if_splits)
    then have "list_all float_char (tl rest)" by (rule parse_exponent_chars)
    then show ?thesis using h False by (cases rest) auto
  qed
  show ?thesis using s mc rc by (simp add: hd_append)
qed

lemma float_char_plain: "float_char c \<Longrightarrow> \<not> is_space c \<and> c \<noteq> CHR '','' \<and> c \<noteq> CHR ''$''
    \<and> c \<noteq> CHR ''('' \<and> c \<noteq> CHR '')''"
  unfolding float_char_def is_digit_def is_space_def by auto

lemma strip_id: "s \<noteq> [] \<Longrightarrow> \<not> is_space (hd s) \<Longrightarrow> \<not> is_space (last s) \<Longrightarrow> strip s = s"
proof -
  assume a: "s \<noteq> []" "\<not> is_space (hd s)" "\<not> is_space (last s)"
  then have 1: "dropWhile is_space s = s" by (cases s) auto
  have "hd (rev s) = last s" using a(1) by (simp add: hd_rev)
  then have "\<not> is_space (hd (rev s))" using a(3) by simp
  moreover have "rev s \<noteq> []" using a(1) by simp
  ultimately have 2: "dropWhile is_space (rev s) = rev s"
    by (metis dropWhile.simps(2) list.collapse)
  show ?thesis unfolding strip_def 1 2 by simp
qed

lemma remove_char_id: "c \<notin> set s \<Longrightarrow> remove_char c s = s"
  unfolding remove_char_def by (induction s) auto

lemma remove_char_idem: "remove_char c (remove_char c s) = remove_char c s"
  unfolding remove_char_def by simp

lemma remove_char_commute: "remove_char a (remove_char b s) = remove_char b (remove_char a s)"
  unfolding remove_char_def by (induction s) auto

lemma clean_number_paren:
  assumes "parse_floatnumber body = Some q"
  shows "clean_number (Some (''('' @ body @ '')'')) = Finite (- q)"
proof -
  have c: "list_all float_char body" and ne: "body \<noteq> []"
    and h: "is_digit (hd body) \<or> hd body = CHR ''.''"
    using parse_floatnumber_chars [OF assms] by auto
  have plain: "\<And>x. x \<in> set body \<Longrightarrow> \<not> is_space x \<and> x \<noteq> CHR '','' \<and> x \<noteq> CHR ''$''"
    using c float_char_plain unfolding list_all_iff by blast
  let ?s = "''('' @ body @ '')''"
  have r1: "remove_char (CHR '','') ?s = ?s"
    by (rule remove_char_id) (use plain in auto)
  have r2: "remove_char (CHR ''$'') ?s = ?s"
    by (rule remove_char_id) (use plain in auto)
  have st: "strip ?s = ?s"
    by (rule strip_id) (auto simp: is_space_def)
  have sw: "startswith ?s ''(''" by (simp add: startswith_def)
  have ew: "endswith ?s '')''" by (simp add: endswith_def)
  have bl: "butlast (tl ?s) = body" by (simp add: butlast_append)
  have lastb: "\<not> is_space (last body)" using plain ne by simp
  have st2: "strip (''-'' @ body) = ''-'' @ body"
    by (rule strip_id) (use ne lastb in \<open>auto simp: is_space_def\<close>)
  have ps: "parse_sign (''-'' @ body) = (True, body)"
    by (simp add: parse_sign_def startswith_def)
  have hl: "hd (lower body) = lower_char (hd body)"
    using ne unfolding lower_def by (simp add: hd_map)
  have dl: "is_digit (hd (lower body)) \<or> hd (lower body) = CHR ''.''"
    using h unfolding hl lower_char_def is_digit_def is_upper_def by auto
  have ni: "lower body \<noteq> ''inf'' \<and> lower body \<noteq> ''infinity'' \<and> lower body \<noteq> ''nan''"
    using dl by (auto simp: is_digit_def)
  have pf: "py_float (''-'' @ body) = Inr (Finite (- q))"
    unfolding py_float_def st2 ps using ni assms by simp
  show ?thesis
    unfolding clean_number_def option.case Let_def r1 r2 st
    using sw ew bl pf by simp
qed

lemma clean_number_stripped:
  "clean_number (Some (remove_char (CHR ''$'') (remove_char (CHR '','') s))) = clean_number (Some s)"
proof -
  have "remove_char (CHR ''$'') (remove_char (CHR '','') (remove_char (CHR ''$'') (remove_char (CHR '','') s)))
      = remove_char (CHR ''$'') (remove_char (CHR '','') s)"
    unfolding remove_char_def by (induction s) auto
  then show ?thesis unfolding clean_number_def by simp
qed

lemma reshape_no_missing: "(li, period, v) \<in> set (reshape df) \<Longrightarrow> v \<noteq> NaN"
  unfolding reshape_def Let_def dropna_value_def by auto


lemmas float_eval = clean_number_def py_float_def parse_sign_def parse_floatnumber_def parse_mantissa_def parse_exponent_def scale10_def valid_digitpart_def digits_value_def digit_val_def is_digit_def is_space_def strip_def remove_char_def startswith_def endswith_def lower_def lower_char_def Let_def

lemma clean_number_ex1: "clean_number (Some ''(1,234)'') = Finite (- 1234)"
  by (simp add: float_eval)

lemma clean_number_ex2: "clean_number (Some ''(1,234.50)'') = Finite (- 1234.5)"
  by (simp add: float_eval)

lemma clean_number_ex3: "clean_number (Some ''$2,000'') = Finite 2000"
  by (simp add: float_eval)

lemma clean_number_ex4: "clean_number (Some [CHR 0xE2, CHR 0x80, CHR 0x94]) = NaN"
  by (simp add: float_eval)

lemma clean_number_ex5: "clean_number (Some ''N/A'') = NaN"
  by (simp add: float_eval)

lemma parse_floatnumber_ex: "parse_floatnumber ''0.75'' = Some (3 / 4)"
  by (simp add: float_eval)

lemma reshape_ex:
  "reshape [(''Line Item'', [Some ''Cash'', Some ''Debt'']),
            (''2025'', [Some ''$2,000'', Some [CHR 0xE2, CHR 0x80, CHR 0x94]])]
     = [(''Cash'', ''2025'', Finite 2000)]"
  by (simp add: reshape_def melt_def dropna_value_def line_item_text_def rename_period_def float_eval)

text \<open>
  Claim C5. \<open>clean_number\<close> returns a float for every cell and never raises: commas and
  dollar signs make no difference to the result; a decimal number in parentheses gives
  the negated number (\<open>(1,234)\<close> gives -1234, \<open>(1,234.50)\<close> gives -1234.5); \<open>$2,000\<close>
  gives 2000; a text that is no number (the dash, \<open>N/A\<close>) gives the missing value; and
  no row of the reshaped table has a missing value.
\<close>

theorem clean_number_spec:
  "clean_number (Some ''(1,234)'') = Finite (- 1234)
   \<and> clean_number (Some ''(1,234.50)'') = Finite (- 1234.5)
   \<and> clean_number (Some ''$2,000'') = Finite 2000
   \<and> clean_number (Some [CHR 0xE2, CHR 0x80, CHR 0x94]) = NaN
   \<and> clean_number (Some ''N/A'') = NaN
   \<and> clean_number None = NaN
   \<and> (\<forall>s. clean_number (Some s) = clean_number (Some (remove_char (CHR ''$'') (remove_char (CHR '','') s))))
   \<and> (\<forall>body q. parse_floatnumber body = Some q
         \<longrightarrow> clean_number (Some (''('' @ body @ '')'')) = Finite (- q))
   \<and> (\<forall>df li period v. (li, period, v) \<in> set (reshape df) \<longrightarrow> v \<noteq> NaN)"
proof (intro conjI allI impI)
  show "clean_number (Some ''(1,234)'') = Finite (- 1234)" by (rule clean_number_ex1)
  show "clean_number (Some ''(1,234.50)'') = Finite (- 1234.5)" by (rule clean_number_ex2)
  show "clean_number (Some ''$2,000'') = Finite 2000" by (rule clean_number_ex3)
  show "clean_number (Some [CHR 0xE2, CHR 0x80, CHR 0x94]) = NaN" by (rule clean_number_ex4)
  show "clean_number (Some ''N/A'') = NaN" by (rule clean_number_ex5)
  show "clean_number None = NaN" by (simp add: clean_number_def)
next
  fix s
  show "clean_number (Some s) = clean_number (Some (remove_char (CHR ''$'') (remove_char (CHR '','') s)))"
    by (rule clean_number_stripped [symmetric])
next
  fix body q
  assume "parse_floatnumber body = Some q"
  then show "clean_number (Some (''('' @ body @ '')'')) = Finite (- q)"
    by (rule clean_number_paren)
next
  fix df li period v
  assume "(li, period, v) \<in> set (reshape df)"
  then show "v \<noteq> NaN" by (rule reshape_no_missing)
qed

theorem clean_number_spec_witness:
  "clean_number (Some ''(0.75)'') = Finite (- (3 / 4))
   \<and> reshape [(''Line Item'', [Some ''Cash'', Some ''Debt'']),
               (''2025'', [Some ''$2,000'', Some [CHR 0xE2, CHR 0x80, CHR 0x94]])]
       = [(''Cash'', ''2025'', Finite 2000)]
   \<and> Finite 2000 \<noteq> NaN"
proof -
  let ?df = "[(''Line Item'', [Some ''Cash'', Some ''Debt'']),
              (''2025'', [Some ''$2,000'', Some [CHR 0xE2, CHR 0x80, CHR 0x94]])]"
  have p: "parse_floatnumber ''0.75'' = Some (3 / 4)" by (rule parse_floatnumber_ex)
  have r: "reshape ?df = [(''Cash'', ''2025'', Finite 2000)]" by (rule reshape_ex)
  then have m: "(''Cash'', ''2025'', Finite 2000) \<in> set (reshape ?df)" by simp
  have "clean_number (Some (''('' @ ''0.75'' @ '')'')) = Finite (- (3 / 4))"
    using clean_number_spec p by blast
  moreover have "Finite 2000 \<noteq> NaN"
    using clean_number_spec m by blast
  ultimately show ?thesis using r by simp
qed

section \<open>The loader run twice, and a failed run\<close>


subsection \<open>Lists and dicts\<close>

lemma set_unique: "set (unique xs) = set xs"
  by (induction xs) auto

lemma distinct_unique: "distinct (unique xs)"
  by (induction xs) (auto simp: set_unique)

lemma dict_of_append: "dict_of (a @ b) d = dict_of b (dict_of a d)"
  by (simp add: dict_of_def)

lemma dict_of_Nil: "dict_of [] d = d"
  by (simp add: dict_of_def)

lemma dict_of_Cons: "dict_of (kv # kvs) d = dict_of kvs (AList.update (fst kv) (snd kv) d)"
  by (simp add: dict_of_def)

lemma dict_of_keys: "fst ` set (dict_of kvs d) = fst ` set d \<union> fst ` set kvs"
  by (induction kvs arbitrary: d) (auto simp: dict_of_Nil dict_of_Cons dom_update)

lemma distinct_dict_of: "distinct (map fst d) \<Longrightarrow> distinct (map fst (dict_of kvs d))"
  by (induction kvs arbitrary: d) (auto simp: dict_of_Nil dict_of_Cons distinct_update)

lemma map_of_dict_of: "map_of (dict_of kvs d) = map_of d ++ map_of (rev kvs)"
proof (induction kvs arbitrary: d)
  case Nil
  then show ?case by (simp add: dict_of_Nil)
next
  case (Cons kv kvs)
  have "map_of (dict_of (kv # kvs) d) = map_of (AList.update (fst kv) (snd kv) d) ++ map_of (rev kvs)"
    using Cons.IH by (simp add: dict_of_Cons)
  also have "\<dots> = (map_of d)(fst kv \<mapsto> snd kv) ++ map_of (rev kvs)"
    by (simp add: update_conv')
  also have "\<dots> = map_of d ++ (map_of [kv] ++ map_of (rev kvs))"
    by (cases kv) (auto simp: fun_eq_iff map_add_def split: option.splits)
  also have "\<dots> = map_of d ++ map_of (rev (kv # kvs))"
    by (simp add: map_of_append)
  finally show ?case .
qed

lemma map_of_None_iff: "map_of d k = None \<longleftrightarrow> k \<notin> fst ` set d"
  by (simp add: map_of_eq_None_iff)

lemma dict_of_keys_absorb:
  "fst ` set kvs \<subseteq> fst ` set d \<Longrightarrow> map fst (dict_of kvs d) = map fst d"
proof (induction kvs arbitrary: d)
  case Nil
  then show ?case by (simp add: dict_of_Nil)
next
  case (Cons kv kvs)
  have k: "fst kv \<in> set (map fst d)" using Cons.prems by auto
  have keys: "map fst (AList.update (fst kv) (snd kv) d) = map fst d"
    using k by (simp add: update_keys)
  then have "fst ` set kvs \<subseteq> fst ` set (AList.update (fst kv) (snd kv) d)"
    using Cons.prems by (metis (no_types, lifting) insert_subset list.set_map list.simps(15) image_insert)
  then show ?case using Cons.IH keys by (simp add: dict_of_Cons)
qed

lemma alist_eqI:
  "map fst a = map fst b \<Longrightarrow> map_of a = map_of b \<Longrightarrow> distinct (map fst a) \<Longrightarrow> a = b"
proof (induction a arbitrary: b)
  case Nil
  then show ?case by simp
next
  case (Cons p a)
  then obtain q b' where b: "b = q # b'" by (cases b) auto
  have fk: "fst p = fst q" and keys: "map fst a = map fst b'"
    using Cons.prems(1) b by auto
  from Cons.prems(2) have "map_of (p # a) (fst p) = map_of b (fst p)"
    by (rule fun_cong)
  then have sv: "snd p = snd q" using fk b by simp
  then have pq: "p = q" using fk by (simp add: prod_eq_iff)
  have nk: "fst p \<notin> fst ` set a" using Cons.prems(3) by simp
  have "map_of a k = map_of b' k" for k
  proof (cases "k = fst p")
    case True
    have "map_of a k = None" using nk True by (simp add: map_of_eq_None_iff)
    moreover have "map_of b' k = None"
      using nk True keys by (metis list.set_map map_of_eq_None_iff)
    ultimately show ?thesis by simp
  next
    case False
    from Cons.prems(2) have "map_of (p # a) k = map_of b k" by (rule fun_cong)
    then show ?thesis using False fk b by simp
  qed
  then have "map_of a = map_of b'" by (simp add: fun_eq_iff)
  moreover have "distinct (map fst a)" using Cons.prems(3) by simp
  ultimately have "a = b'" using Cons.IH keys by blast
  then show ?case using pq b by simp
qed

lemma dict_of_idem:
  assumes "distinct (map fst d)"
  shows "dict_of kvs (dict_of kvs d) = dict_of kvs d"
proof (rule alist_eqI)
  have "fst ` set kvs \<subseteq> fst ` set (dict_of kvs d)"
    by (simp add: dict_of_keys)
  then show "map fst (dict_of kvs (dict_of kvs d)) = map fst (dict_of kvs d)"
    by (rule dict_of_keys_absorb)
  show "map_of (dict_of kvs (dict_of kvs d)) = map_of (dict_of kvs d)"
    unfolding map_of_dict_of
    by (auto simp: fun_eq_iff map_add_def split: option.splits)
  show "distinct (map fst (dict_of kvs (dict_of kvs d)))"
    using assms by (intro distinct_dict_of)
qed

lemma dict_of_requery:
  "dict_of (a @ b) (dict_of a []) = dict_of (a @ b) []"
proof -
  have "dict_of (a @ b) (dict_of a []) = dict_of b (dict_of a (dict_of a []))"
    by (simp add: dict_of_append)
  also have "\<dots> = dict_of b (dict_of a [])"
    by (simp add: dict_of_idem)
  finally show ?thesis by (simp add: dict_of_append)
qed


subsection \<open>Upsert by name\<close>

lemma bulk_insert_names_ok:
  "distinct ns \<Longrightarrow> set ns \<inter> snd ` set t = {} \<Longrightarrow>
     \<exists>rows. bulk_insert_names ns t = (None, t @ rows) \<and> map snd rows = ns"
proof (induction ns arbitrary: t)
  case Nil
  then show ?case by simp
next
  case (Cons n ns)
  let ?t = "t @ [(next_id (map fst t), n)]"
  have "n \<notin> snd ` set t" using Cons.prems(2) by auto
  then have step: "bulk_insert_names (n # ns) t = bulk_insert_names ns ?t" by simp
  have "distinct ns" using Cons.prems(1) by simp
  moreover have "set ns \<inter> snd ` set ?t = {}" using Cons.prems by auto
  ultimately obtain rows where "bulk_insert_names ns ?t = (None, ?t @ rows)" "map snd rows = ns"
    using Cons.IH by blast
  then have "bulk_insert_names (n # ns) t = (None, t @ ((next_id (map fst t), n) # rows))
      \<and> map snd ((next_id (map fst t), n) # rows) = n # ns"
    using step by simp
  then show ?case by (intro exI [of _ "(next_id (map fst t), n) # rows"])
qed

lemma names_query_keys: "fst ` set (names_query names t) = set names \<inter> snd ` set t"
  unfolding names_query_def by (force simp: dict_of_keys image_iff)

lemma names_query_None: "map_of (names_query names t) n = None \<longleftrightarrow> n \<notin> set names \<or> n \<notin> snd ` set t"
  by (simp add: map_of_eq_None_iff names_query_keys)

lemma upsert_names_idem:
  assumes "distinct names"
  shows "\<exists>m c rows. upsert_names names t = (Inr m, c, t @ rows)
     \<and> upsert_names names (t @ rows) = (Inr m, False, t @ rows)
     \<and> (\<not> c \<longrightarrow> rows = [])"
proof -
  define new_objs where "new_objs = filter (\<lambda>n. map_of (names_query names t) n = None) names"
  show ?thesis
  proof (cases "new_objs = []")
    case True
    then have "upsert_names names t = (Inr (names_query names t), False, t @ [])"
      unfolding upsert_names_def Let_def new_objs_def by simp
    then show ?thesis by (metis append_Nil2)
  next
    case False
    have d: "distinct new_objs" unfolding new_objs_def using assms by simp
    have "set new_objs \<inter> snd ` set t = {}"
      unfolding new_objs_def by (auto simp: names_query_None)
    then obtain rows where ins: "bulk_insert_names new_objs t = (None, t @ rows)"
      and r: "map snd rows = new_objs"
      using bulk_insert_names_ok [OF d] by blast
    have u1: "upsert_names names t = (Inr (names_query names (t @ rows)), True, t @ rows)"
      using False ins unfolding upsert_names_def Let_def new_objs_def by simp
    have "snd ` set rows = set new_objs" using r by (metis list.set_map)
    then have "set names \<subseteq> snd ` set (t @ rows)"
      unfolding new_objs_def by (auto simp: names_query_None)
    then have "filter (\<lambda>n. map_of (names_query names (t @ rows)) n = None) names = []"
      by (auto simp: filter_empty_conv names_query_None)
    then have u2: "upsert_names names (t @ rows) = (Inr (names_query names (t @ rows)), False, t @ rows)"
      unfolding upsert_names_def Let_def by simp
    show ?thesis using u1 u2 by blast
  qed
qed

lemma upsert_companies_idem:
  assumes "distinct names" and "pending s = committed s"
  shows "\<exists>m s'. upsert_companies names s = (Inr m, s') \<and> pending s' = committed s'
     \<and> filing (pending s') = filing (pending s)
     \<and> statement_type (pending s') = statement_type (pending s)
     \<and> line_item (pending s') = line_item (pending s)
     \<and> financial_fact (pending s') = financial_fact (pending s)
     \<and> (\<exists>rows. company (pending s') = company (pending s) @ rows)
     \<and> (\<forall>s''. company (pending s'') = company (pending s') \<longrightarrow> upsert_companies names s'' = (Inr m, s''))"
proof -
  obtain m c rows where u: "upsert_names names (company (pending s)) = (Inr m, c, company (pending s) @ rows)"
    and u2: "upsert_names names (company (pending s) @ rows) = (Inr m, False, company (pending s) @ rows)"
    and c: "\<not> c \<longrightarrow> rows = []"
    using upsert_names_idem [OF assms(1)] by blast
  define s' where "s' = (let s1 = s\<lparr>pending := (pending s)\<lparr>company := company (pending s) @ rows\<rparr>\<rparr>
                         in if c then commit s1 else s1)"
  have r: "upsert_companies names s = (Inr m, s')"
    unfolding upsert_companies_def u s'_def by (simp add: Let_def)
  have p: "company (pending s') = company (pending s) @ rows"
    unfolding s'_def Let_def commit_def by simp
  have "pending s' = committed s'"
    using assms(2) c unfolding s'_def Let_def commit_def by auto
  moreover have "filing (pending s') = filing (pending s)"
    "statement_type (pending s') = statement_type (pending s)"
    "line_item (pending s') = line_item (pending s)"
    "financial_fact (pending s') = financial_fact (pending s)"
    unfolding s'_def Let_def commit_def by simp_all
  moreover have "upsert_companies names s'' = (Inr m, s'')" if "company (pending s'') = company (pending s')" for s''
    unfolding upsert_companies_def using that u2 p by simp
  ultimately show ?thesis using r p by blast
qed

lemma upsert_statement_types_idem:
  assumes "distinct names" and "pending s = committed s"
  shows "\<exists>m s'. upsert_statement_types names s = (Inr m, s') \<and> pending s' = committed s'
     \<and> filing (pending s') = filing (pending s)
     \<and> company (pending s') = company (pending s)
     \<and> line_item (pending s') = line_item (pending s)
     \<and> financial_fact (pending s') = financial_fact (pending s)
     \<and> (\<exists>rows. statement_type (pending s') = statement_type (pending s) @ rows)
     \<and> (\<forall>s''. statement_type (pending s'') = statement_type (pending s') \<longrightarrow> upsert_statement_types names s'' = (Inr m, s''))"
proof -
  obtain m c rows where u: "upsert_names names (statement_type (pending s)) = (Inr m, c, statement_type (pending s) @ rows)"
    and u2: "upsert_names names (statement_type (pending s) @ rows) = (Inr m, False, statement_type (pending s) @ rows)"
    and c: "\<not> c \<longrightarrow> rows = []"
    using upsert_names_idem [OF assms(1)] by blast
  define s' where "s' = (let s1 = s\<lparr>pending := (pending s)\<lparr>statement_type := statement_type (pending s) @ rows\<rparr>\<rparr>
                         in if c then commit s1 else s1)"
  have r: "upsert_statement_types names s = (Inr m, s')"
    unfolding upsert_statement_types_def u s'_def by (simp add: Let_def)
  have p: "statement_type (pending s') = statement_type (pending s) @ rows"
    unfolding s'_def Let_def commit_def by simp
  have "pending s' = committed s'"
    using assms(2) c unfolding s'_def Let_def commit_def by auto
  moreover have "filing (pending s') = filing (pending s)"
    "company (pending s') = company (pending s)"
    "line_item (pending s') = line_item (pending s)"
    "financial_fact (pending s') = financial_fact (pending s)"
    unfolding s'_def Let_def commit_def by simp_all
  moreover have "upsert_statement_types names s'' = (Inr m, s'')" if "statement_type (pending s'') = statement_type (pending s')" for s''
    unfolding upsert_statement_types_def using that u2 p by simp
  ultimately show ?thesis using r p by blast
qed

lemma upsert_line_items_idem:
  assumes "distinct names" and "pending s = committed s"
  shows "\<exists>m s'. upsert_line_items names s = (Inr m, s') \<and> pending s' = committed s'
     \<and> filing (pending s') = filing (pending s)
     \<and> company (pending s') = company (pending s)
     \<and> statement_type (pending s') = statement_type (pending s)
     \<and> financial_fact (pending s') = financial_fact (pending s)
     \<and> (\<exists>rows. line_item (pending s') = line_item (pending s) @ rows)
     \<and> (\<forall>s''. line_item (pending s'') = line_item (pending s') \<longrightarrow> upsert_line_items names s'' = (Inr m, s''))"
proof -
  obtain m c rows where u: "upsert_names names (line_item (pending s)) = (Inr m, c, line_item (pending s) @ rows)"
    and u2: "upsert_names names (line_item (pending s) @ rows) = (Inr m, False, line_item (pending s) @ rows)"
    and c: "\<not> c \<longrightarrow> rows = []"
    using upsert_names_idem [OF assms(1)] by blast
  define s' where "s' = (let s1 = s\<lparr>pending := (pending s)\<lparr>line_item := line_item (pending s) @ rows\<rparr>\<rparr>
                         in if c then commit s1 else s1)"
  have r: "upsert_line_items names s = (Inr m, s')"
    unfolding upsert_line_items_def u s'_def by (simp add: Let_def)
  have p: "line_item (pending s') = line_item (pending s) @ rows"
    unfolding s'_def Let_def commit_def by simp
  have "pending s' = committed s'"
    using assms(2) c unfolding s'_def Let_def commit_def by auto
  moreover have "filing (pending s') = filing (pending s)"
    "company (pending s') = company (pending s)"
    "statement_type (pending s') = statement_type (pending s)"
    "financial_fact (pending s') = financial_fact (pending s)"
    unfolding s'_def Let_def commit_def by simp_all
  moreover have "upsert_line_items names s'' = (Inr m, s'')" if "line_item (pending s'') = line_item (pending s')" for s''
    unfolding upsert_line_items_def using that u2 p by simp
  ultimately show ?thesis using r p by blast
qed


subsection \<open>Filings\<close>

lemma bulk_insert_filings_result:
  "\<exists>rows. snd (bulk_insert_filings ks t) = t @ rows
     \<and> (fst (bulk_insert_filings ks t) = None \<longrightarrow> map snd rows = ks)"
proof (induction ks arbitrary: t)
  case Nil
  then show ?case by simp
next
  case (Cons k ks)
  show ?case
  proof (cases "filing_conflict k t")
    case True
    then show ?thesis by simp
  next
    case False
    let ?t = "t @ [(next_id (map fst t), k)]"
    obtain rows where r: "snd (bulk_insert_filings ks ?t) = ?t @ rows"
      "fst (bulk_insert_filings ks ?t) = None \<longrightarrow> map snd rows = ks"
      using Cons.IH by blast
    have "snd (bulk_insert_filings (k # ks) t) = t @ ((next_id (map fst t), k) # rows)
        \<and> (fst (bulk_insert_filings (k # ks) t) = None \<longrightarrow> map snd ((next_id (map fst t), k) # rows) = k # ks)"
      using False r by simp
    then show ?thesis by (intro exI [of _ "(next_id (map fst t), k) # rows"])
  qed
qed

lemma filings_query_keys:
  "fst ` set (filings_query tc t d) = fst ` set d \<union> {k \<in> snd ` set t. fst k \<in> fst ` set tc}"
  unfolding filings_query_def by (force simp: dict_of_keys image_iff)

lemma filings_query_append:
  "filings_query tc (t @ rows) (filings_query tc t []) = filings_query tc (t @ rows) []"
  unfolding filings_query_def by (simp add: dict_of_requery)

lemma upsert_filings_cases:
  assumes "pending s = committed s"
  shows "(\<exists>m s'. upsert_filings tc s = (Inr m, s') \<and> pending s' = committed s'
            \<and> company (pending s') = company (pending s)
            \<and> statement_type (pending s') = statement_type (pending s)
            \<and> line_item (pending s') = line_item (pending s)
            \<and> financial_fact (pending s') = financial_fact (pending s)
            \<and> (\<exists>rows. filing (pending s') = filing (pending s) @ rows)
            \<and> (\<forall>s''. filing (pending s'') = filing (pending s') \<longrightarrow> upsert_filings tc s'' = (Inr m, s'')))
       \<or> (\<exists>e s'. upsert_filings tc s = (Inl e, s') \<and> committed s' = committed s
            \<and> (\<forall>s''. filing (pending s'') = filing (pending s)
                  \<longrightarrow> (\<exists>s3. upsert_filings tc s'' = (Inl e, s3) \<and> committed s3 = committed s'')))"
proof -
  define table where "table = filing (pending s)"
  define m0 where "m0 = (if tc = [] then [] else filings_query tc table [])"
  define new where "new = filter (\<lambda>k. map_of m0 k = None) tc"
  show ?thesis
  proof (cases "new = []")
    case True
    have "upsert_filings tc s'' = (Inr m0, s'')" if "filing (pending s'') = table" for s''
    proof (cases "tc = []")
      case T: True
      then show ?thesis unfolding upsert_filings_def Let_def m0_def by simp
    next
      case F: False
      then have "filter (\<lambda>k. map_of (filings_query tc table []) k = None) tc = []"
        using True unfolding new_def m0_def by simp
      then show ?thesis unfolding upsert_filings_def Let_def m0_def using F that by simp
    qed
    moreover have "filing (pending s) = filing (pending s) @ []" by simp
    ultimately show ?thesis using assms table_def by blast
  next
    case False
    then have tcne: "tc \<noteq> []" unfolding new_def by auto
    obtain eo table' where b: "bulk_insert_filings new table = (eo, table')"
      by (cases "bulk_insert_filings new table")
    obtain rows where rows: "table' = table @ rows" and ok: "eo = None \<longrightarrow> map snd rows = new"
      using bulk_insert_filings_result [of new table] b by auto
    show ?thesis
    proof (cases eo)
      case (Some e)
      have nn: "filter (\<lambda>k. map_of (filings_query tc table []) k = None) tc = new"
        unfolding new_def m0_def using tcne by simp
      have "upsert_filings tc s'' = (Inl e, s''\<lparr>pending := (pending s'')\<lparr>filing := table'\<rparr>\<rparr>)"
        if "filing (pending s'') = table" for s''
        unfolding upsert_filings_def Let_def using that False b Some tcne nn
        by simp
      then have "\<exists>s3. upsert_filings tc s'' = (Inl e, s3) \<and> committed s3 = committed s''"
        if "filing (pending s'') = table" for s''
        using that by simp
      then show ?thesis using table_def by blast
    next
      case None
      define s' where "s' = commit (s\<lparr>pending := (pending s)\<lparr>filing := table'\<rparr>\<rparr>)"
      have ps': "filing (pending s') = table'" unfolding s'_def commit_def by simp
      have m0q: "m0 = filings_query tc table []" using tcne m0_def by simp
      have nn: "filter (\<lambda>k. map_of (filings_query tc table []) k = None) tc = new"
        unfolding new_def m0_def using tcne by simp
      have r1: "upsert_filings tc s = (Inr (filings_query tc table' m0), s')"
        unfolding upsert_filings_def Let_def table_def [symmetric] m0q s'_def
        using False b None tcne nn by (simp add: commit_def)
      have meq: "filings_query tc table' m0 = filings_query tc table' []"
        unfolding m0q rows by (rule filings_query_append)
      have snew: "set new = snd ` set rows" using ok None by (metis list.set_map)
      have all: "map_of (filings_query tc table' []) k \<noteq> None" if "k \<in> set tc" for k
      proof (cases "map_of m0 k = None")
        case True
        then have "k \<in> set new" using that unfolding new_def by simp
        then have "k \<in> snd ` set table'" using snew rows by auto
        then have "k \<in> fst ` set (filings_query tc table' [])"
          using that unfolding filings_query_keys by auto
        then show ?thesis by (simp add: map_of_eq_None_iff)
      next
        case F2: False
        then have "k \<in> fst ` set m0" by (simp add: map_of_eq_None_iff)
        then have "k \<in> snd ` set table \<and> fst k \<in> fst ` set tc"
          unfolding m0q filings_query_keys by auto
        then have "k \<in> fst ` set (filings_query tc table' [])"
          unfolding filings_query_keys rows by auto
        then show ?thesis by (simp add: map_of_eq_None_iff)
      qed
      then have nonew: "filter (\<lambda>k. map_of (filings_query tc table' []) k = None) tc = []"
        by (auto simp: filter_empty_conv)
      have r2: "upsert_filings tc s'' = (Inr (filings_query tc table' m0), s'')"
        if "filing (pending s'') = filing (pending s')" for s''
        unfolding upsert_filings_def Let_def using that ps' tcne nonew meq by simp
      have "pending s' = committed s'" unfolding s'_def commit_def by simp
      moreover have "company (pending s') = company (pending s)"
        "statement_type (pending s') = statement_type (pending s)"
        "line_item (pending s') = line_item (pending s)"
        "financial_fact (pending s') = financial_fact (pending s)"
        unfolding s'_def commit_def by simp_all
      moreover have "filing (pending s') = filing (pending s) @ rows"
        using ps' rows table_def by simp
      ultimately show ?thesis using r1 r2 by blast
    qed
  qed
qed



declare committed_chunks.simps [simp del]
declare insert_fact_chunks.simps [simp del]

subsection \<open>Facts\<close>

lemma bulk_insert_facts_result:
  "fst (bulk_insert_facts acc fs t) = (if list_all acc fs then None else Some DatabaseError)
   \<and> (\<exists>rows. snd (bulk_insert_facts acc fs t) = t @ rows \<and> (list_all acc fs \<longrightarrow> map snd rows = fs))"
proof (induction fs arbitrary: t)
  case Nil
  then show ?case by simp
next
  case (Cons f fs)
  show ?case
  proof (cases "acc f")
    case False
    then show ?thesis by simp
  next
    case True
    let ?t = "t @ [(next_id (map fst t), f)]"
    have fst_eq: "fst (bulk_insert_facts acc fs ?t) = (if list_all acc fs then None else Some DatabaseError)"
      using Cons.IH by blast
    obtain rows where r: "snd (bulk_insert_facts acc fs ?t) = ?t @ rows"
      "list_all acc fs \<longrightarrow> map snd rows = fs"
      using Cons.IH by blast
    have 1: "fst (bulk_insert_facts acc (f # fs) t) = (if list_all acc (f # fs) then None else Some DatabaseError)"
      using True fst_eq by simp
    have "snd (bulk_insert_facts acc (f # fs) t) = t @ ((next_id (map fst t), f) # rows)
        \<and> (list_all acc (f # fs) \<longrightarrow> map snd ((next_id (map fst t), f) # rows) = f # fs)"
      using True r by simp
    then have "\<exists>rows. snd (bulk_insert_facts acc (f # fs) t) = t @ rows
        \<and> (list_all acc (f # fs) \<longrightarrow> map snd rows = f # fs)"
      by (intro exI [of _ "(next_id (map fst t), f) # rows"])
    then show ?thesis using 1 by blast
  qed
qed

lemma committed_chunks_all: "list_all acc rows \<Longrightarrow> committed_chunks acc rows = rows"
proof (induction acc rows rule: committed_chunks.induct)
  case (1 acc rows)
  show ?case
  proof (cases "rows = []")
    case True
    then show ?thesis by (simp add: committed_chunks.simps)
  next
    case False
    have a: "list_all acc (take BATCH_SIZE rows)" "list_all acc (drop BATCH_SIZE rows)"
      using "1.prems" by (auto simp: list_all_iff dest: in_set_takeD in_set_dropD)
    then have "committed_chunks acc (drop BATCH_SIZE rows) = drop BATCH_SIZE rows"
      using "1.IH" False by simp
    then show ?thesis using False a by (simp add: committed_chunks.simps [of acc rows])
  qed
qed

lemma list_all_take_drop:
  "list_all P xs \<longleftrightarrow> list_all P (take n xs) \<and> list_all P (drop n xs)"
  by (metis append_take_drop_id list_all_append)

lemma insert_fact_chunks_result:
  assumes "pending s = committed s"
  shows "\<exists>s' new. insert_fact_chunks acc rows s =
            ((if list_all acc rows then Inr () else Inl DatabaseError), s')
     \<and> financial_fact (committed s') = financial_fact (committed s) @ new
     \<and> map snd new = committed_chunks acc rows
     \<and> company (committed s') = company (committed s)
     \<and> filing (committed s') = filing (committed s)
     \<and> statement_type (committed s') = statement_type (committed s)
     \<and> line_item (committed s') = line_item (committed s)"
  using assms
proof (induction acc rows s rule: insert_fact_chunks.induct)
  case (1 acc rows s)
  show ?case
  proof (cases "rows = []")
    case True
    then have "insert_fact_chunks acc rows s = (Inr (), s)"
      by (simp add: insert_fact_chunks.simps)
    moreover have "committed_chunks acc rows = []"
      using True by (simp add: committed_chunks.simps)
    ultimately show ?thesis using True by simp
  next
    case False
    let ?chunk = "take BATCH_SIZE rows"
    let ?table = "financial_fact (pending s)"
    obtain eo table' where b: "bulk_insert_facts acc ?chunk ?table = (eo, table')"
      by (cases "bulk_insert_facts acc ?chunk ?table")
    have eo: "eo = (if list_all acc ?chunk then None else Some DatabaseError)"
      using bulk_insert_facts_result [of acc ?chunk ?table] b by simp
    obtain rows1 where t': "table' = ?table @ rows1"
      and m: "list_all acc ?chunk \<longrightarrow> map snd rows1 = ?chunk"
      using bulk_insert_facts_result [of acc ?chunk ?table] b by auto
    show ?thesis
    proof (cases "list_all acc ?chunk")
      case F: False
      then have e: "eo = Some DatabaseError" using eo by simp
      have r: "insert_fact_chunks acc rows s
          = (Inl DatabaseError, s\<lparr>pending := (pending s)\<lparr>financial_fact := table'\<rparr>\<rparr>)"
        using False b e by (simp add: insert_fact_chunks.simps [of acc rows s])
      have na: "\<not> list_all acc rows" using F list_all_take_drop [of acc rows BATCH_SIZE] by simp
      have "committed_chunks acc rows = []"
        using F by (simp add: committed_chunks.simps [of acc rows])
      then show ?thesis using r na by simp
    next
      case T: True
      then have e: "eo = None" using eo by simp
      define s1 where "s1 = commit (s\<lparr>pending := (pending s)\<lparr>financial_fact := table'\<rparr>\<rparr>)"
      have r: "insert_fact_chunks acc rows s = insert_fact_chunks acc (drop BATCH_SIZE rows) s1"
        using False b e by (simp add: insert_fact_chunks.simps [of acc rows s] s1_def)
      have p1: "pending s1 = committed s1" unfolding s1_def commit_def by simp
      obtain s' new where ih: "insert_fact_chunks acc (drop BATCH_SIZE rows) s1 =
            ((if list_all acc (drop BATCH_SIZE rows) then Inr () else Inl DatabaseError), s')"
        "financial_fact (committed s') = financial_fact (committed s1) @ new"
        "map snd new = committed_chunks acc (drop BATCH_SIZE rows)"
        "company (committed s') = company (committed s1)"
        "filing (committed s') = filing (committed s1)"
        "statement_type (committed s') = statement_type (committed s1)"
        "line_item (committed s') = line_item (committed s1)"
        using "1.IH" [OF False b [symmetric] e p1 [unfolded s1_def]] unfolding s1_def [symmetric] by blast
      have c1: "financial_fact (committed s1) = financial_fact (committed s) @ rows1"
        "company (committed s1) = company (committed s)"
        "filing (committed s1) = filing (committed s)"
        "statement_type (committed s1) = statement_type (committed s)"
        "line_item (committed s1) = line_item (committed s)"
        unfolding s1_def commit_def using t' "1.prems" by simp_all
      have la: "list_all acc rows = list_all acc (drop BATCH_SIZE rows)"
        using T list_all_take_drop [of acc rows BATCH_SIZE] by simp
      have cc: "committed_chunks acc rows = ?chunk @ committed_chunks acc (drop BATCH_SIZE rows)"
        using T False by (simp add: committed_chunks.simps [of acc rows])
      have "financial_fact (committed s') = financial_fact (committed s) @ (rows1 @ new)"
        using ih(2) c1(1) by simp
      moreover have "map snd (rows1 @ new) = committed_chunks acc rows"
        using m T ih(3) cc by simp
      ultimately show ?thesis using r ih(1,4-7) c1(2-5) la by auto
    qed
  qed
qed

lemma insert_fact_chunks_pending:
  assumes "pending s = committed s" and "list_all acc rows"
  shows "pending (snd (insert_fact_chunks acc rows s)) = committed (snd (insert_fact_chunks acc rows s))"
  using assms
proof (induction acc rows s rule: insert_fact_chunks.induct)
  case (1 acc rows s)
  show ?case
  proof (cases "rows = []")
    case True
    then show ?thesis using "1.prems" by (simp add: insert_fact_chunks.simps)
  next
    case False
    let ?chunk = "take BATCH_SIZE rows"
    let ?table = "financial_fact (pending s)"
    have a: "list_all acc ?chunk" "list_all acc (drop BATCH_SIZE rows)"
      using "1.prems"(2) list_all_take_drop [of acc rows BATCH_SIZE] by simp_all
    obtain eo table' where b: "bulk_insert_facts acc ?chunk ?table = (eo, table')"
      by (cases "bulk_insert_facts acc ?chunk ?table")
    have e: "eo = None"
      using bulk_insert_facts_result [of acc ?chunk ?table] b a by simp
    define s1 where "s1 = commit (s\<lparr>pending := (pending s)\<lparr>financial_fact := table'\<rparr>\<rparr>)"
    have r: "insert_fact_chunks acc rows s = insert_fact_chunks acc (drop BATCH_SIZE rows) s1"
      using False b e by (simp add: insert_fact_chunks.simps [of acc rows s] s1_def)
    have p1: "pending s1 = committed s1" unfolding s1_def commit_def by simp
    show ?thesis
      unfolding r using "1.IH" [OF False b [symmetric] e p1 [unfolded s1_def] a(2)]
      unfolding s1_def [symmetric] by simp
  qed
qed

lemma committed_chunks_whole:
  "\<not> list_all acc rows \<Longrightarrow> \<exists>k. length (committed_chunks acc rows) = k * BATCH_SIZE"
proof (induction acc rows rule: committed_chunks.induct)
  case (1 acc rows)
  show ?case
  proof (cases "rows = [] \<or> \<not> list_all acc (take BATCH_SIZE rows)")
    case True
    then have "committed_chunks acc rows = []"
      by (simp add: committed_chunks.simps [of acc rows])
    then show ?thesis by simp
  next
    case False
    then have ne: "rows \<noteq> []" and t: "list_all acc (take BATCH_SIZE rows)" by auto
    have d: "\<not> list_all acc (drop BATCH_SIZE rows)"
      using "1.prems" t list_all_take_drop [of acc rows BATCH_SIZE] by simp
    then have "drop BATCH_SIZE rows \<noteq> []" by auto
    then have l: "length (take BATCH_SIZE rows) = BATCH_SIZE" by simp
    obtain k where k: "length (committed_chunks acc (drop BATCH_SIZE rows)) = k * BATCH_SIZE"
      using "1.IH" False d by blast
    have "committed_chunks acc rows = take BATCH_SIZE rows @ committed_chunks acc (drop BATCH_SIZE rows)"
      using False by (simp add: committed_chunks.simps [of acc rows])
    then have "length (committed_chunks acc rows) = Suc k * BATCH_SIZE"
      using l k by simp
    then show ?thesis by blast
  qed
qed


subsection \<open>One run of the loader, and the run after it\<close>

lemma load_body_unfold:
  assumes "upsert_companies (unique (map upper (dropna (map df_ticker df)))) s0 = (Inr m1, s1)"
    and "upsert_statement_types (unique (dropna (map df_statement_type df))) s1 = (Inr m2, s2)"
    and "upsert_line_items (unique (dropna (map df_line_item df))) s2 = (Inr m3, s3)"
  shows "load_body pt acc df s0 =
     (case upsert_filings (filings_to_create pt m1 df) s3 of
        (Inl e, s') \<Rightarrow> (Inl e, s')
      | (Inr m4, s4) \<Rightarrow>
          (case insert_fact_chunks acc (List.map_filter (fact_of_row pt m1 m2 m3 m4) df) s4 of
             (Inl e, s') \<Rightarrow> (Inl e, s')
           | (Inr u, s5) \<Rightarrow>
               (Inr (length m1, length m2, length m3, length m4,
                     length (List.map_filter (fact_of_row pt m1 m2 m3 m4) df)), s5)))"
  using assms by (simp add: load_body_def and_then_def Let_def split: prod.splits sum.splits)

lemma load_body_run:
  assumes p0: "pending s0 = committed s0"
  shows "\<exists>r s' n. load_body pt acc df s0 = (r, s')
     \<and> length (financial_fact (committed s')) = length (financial_fact (committed s0)) + n
     \<and> (\<forall>c1 c2 c3 c4 k. r = Inr (c1, c2, c3, c4, k) \<longrightarrow> n = k)
     \<and> (\<exists>rc rs rl rf new. company (committed s') = company (committed s0) @ rc
            \<and> statement_type (committed s') = statement_type (committed s0) @ rs
            \<and> line_item (committed s') = line_item (committed s0) @ rl
            \<and> filing (committed s') = filing (committed s0) @ rf
            \<and> financial_fact (committed s') = financial_fact (committed s0) @ new)
     \<and> ((\<exists>e. r = Inl e) \<longrightarrow> (\<exists>k. n = k * BATCH_SIZE))
     \<and> (\<forall>t0. pending t0 = committed t0 \<and> company (pending t0) = company (committed s')
            \<and> statement_type (pending t0) = statement_type (committed s')
            \<and> line_item (pending t0) = line_item (committed s')
            \<and> filing (pending t0) = filing (committed s')
          \<longrightarrow> (\<exists>t'. load_body pt acc df t0 = (r, t')
                \<and> company (committed t') = company (committed t0)
                \<and> statement_type (committed t') = statement_type (committed t0)
                \<and> line_item (committed t') = line_item (committed t0)
                \<and> filing (committed t') = filing (committed t0)
                \<and> length (financial_fact (committed t')) = length (financial_fact (committed t0)) + n))"
proof -
  let ?T = "unique (map upper (dropna (map df_ticker df)))"
  let ?S = "unique (dropna (map df_statement_type df))"
  let ?L = "unique (dropna (map df_line_item df))"
  obtain m1 s1 where u1: "upsert_companies ?T s0 = (Inr m1, s1)" and p1: "pending s1 = committed s1"
    and f1: "filing (pending s1) = filing (pending s0)" "statement_type (pending s1) = statement_type (pending s0)"
      "line_item (pending s1) = line_item (pending s0)" "financial_fact (pending s1) = financial_fact (pending s0)"
    and a1: "\<exists>rows. company (pending s1) = company (pending s0) @ rows"
    and i1: "\<forall>s''. company (pending s'') = company (pending s1) \<longrightarrow> upsert_companies ?T s'' = (Inr m1, s'')"
    using upsert_companies_idem [OF distinct_unique p0] by blast
  obtain m2 s2 where u2: "upsert_statement_types ?S s1 = (Inr m2, s2)" and p2: "pending s2 = committed s2"
    and f2: "filing (pending s2) = filing (pending s1)" "company (pending s2) = company (pending s1)"
      "line_item (pending s2) = line_item (pending s1)" "financial_fact (pending s2) = financial_fact (pending s1)"
    and a2: "\<exists>rows. statement_type (pending s2) = statement_type (pending s1) @ rows"
    and i2: "\<forall>s''. statement_type (pending s'') = statement_type (pending s2) \<longrightarrow> upsert_statement_types ?S s'' = (Inr m2, s'')"
    using upsert_statement_types_idem [OF distinct_unique p1] by blast
  obtain m3 s3 where u3: "upsert_line_items ?L s2 = (Inr m3, s3)" and p3: "pending s3 = committed s3"
    and f3: "filing (pending s3) = filing (pending s2)" "company (pending s3) = company (pending s2)"
      "statement_type (pending s3) = statement_type (pending s2)" "financial_fact (pending s3) = financial_fact (pending s2)"
    and a3: "\<exists>rows. line_item (pending s3) = line_item (pending s2) @ rows"
    and i3: "\<forall>s''. line_item (pending s'') = line_item (pending s3) \<longrightarrow> upsert_line_items ?L s'' = (Inr m3, s'')"
    using upsert_line_items_idem [OF distinct_unique p2] by blast
  obtain rc where rc: "company (pending s1) = company (committed s0) @ rc" using a1 p0 by auto
  obtain rs where rs: "statement_type (pending s2) = statement_type (committed s0) @ rs"
    using a2 f1(2) p0 by auto
  obtain rl where rl: "line_item (pending s3) = line_item (committed s0) @ rl"
    using a3 f2(3) f1(3) p0 by auto
  have fl0: "filing (pending s3) = filing (committed s0)" using f3(1) f2(1) f1(1) p0 by simp
  let ?tc = "filings_to_create pt m1 df"
  note unfold = load_body_unfold [where pt = pt and acc = acc and df = df]
  have body: "load_body pt acc df s0 =
     (case upsert_filings ?tc s3 of
        (Inl e, s') \<Rightarrow> (Inl e, s')
      | (Inr m4, s4) \<Rightarrow>
          (case insert_fact_chunks acc (List.map_filter (fact_of_row pt m1 m2 m3 m4) df) s4 of
             (Inl e, s') \<Rightarrow> (Inl e, s')
           | (Inr u, s5) \<Rightarrow>
               (Inr (length m1, length m2, length m3, length m4,
                     length (List.map_filter (fact_of_row pt m1 m2 m3 m4) df)), s5)))"
    by (rule unfold [OF u1 u2 u3])
  have replay: "load_body pt acc df t0 =
     (case upsert_filings ?tc t0 of
        (Inl e, s') \<Rightarrow> (Inl e, s')
      | (Inr m4, s4) \<Rightarrow>
          (case insert_fact_chunks acc (List.map_filter (fact_of_row pt m1 m2 m3 m4) df) s4 of
             (Inl e, s') \<Rightarrow> (Inl e, s')
           | (Inr u, s5) \<Rightarrow>
               (Inr (length m1, length m2, length m3, length m4,
                     length (List.map_filter (fact_of_row pt m1 m2 m3 m4) df)), s5)))"
    if "company (pending t0) = company (pending s1)"
      "statement_type (pending t0) = statement_type (pending s2)"
      "line_item (pending t0) = line_item (pending s3)" for t0
    by (rule unfold) (use that i1 i2 i3 in auto)
  from upsert_filings_cases [OF p3, of ?tc] show ?thesis
  proof (elim disjE exE conjE)
    fix m4 s4 rows4
    assume u4: "upsert_filings ?tc s3 = (Inr m4, s4)" and p4: "pending s4 = committed s4"
      and f4: "company (pending s4) = company (pending s3)"
        "statement_type (pending s4) = statement_type (pending s3)"
        "line_item (pending s4) = line_item (pending s3)"
        "financial_fact (pending s4) = financial_fact (pending s3)"
      and a4: "filing (pending s4) = filing (pending s3) @ rows4"
      and i4: "\<forall>s''. filing (pending s'') = filing (pending s4) \<longrightarrow> upsert_filings ?tc s'' = (Inr m4, s'')"
    let ?F = "List.map_filter (fact_of_row pt m1 m2 m3 m4) df"
    let ?r5 = "if list_all acc ?F then Inr () else Inl DatabaseError"
    let ?r = "if list_all acc ?F then Inr (length m1, length m2, length m3, length m4, length ?F)
              else Inl DatabaseError"
    obtain s5 new where c5: "insert_fact_chunks acc ?F s4 = (?r5, s5)"
      and n5: "financial_fact (committed s5) = financial_fact (committed s4) @ new"
        "map snd new = committed_chunks acc ?F"
      and d5: "company (committed s5) = company (committed s4)"
        "filing (committed s5) = filing (committed s4)"
        "statement_type (committed s5) = statement_type (committed s4)"
        "line_item (committed s5) = line_item (committed s4)"
      using insert_fact_chunks_result [OF p4, of acc ?F] by blast
    define n where "n = length (committed_chunks acc ?F)"
    have ln: "length new = n" unfolding n_def using n5(2) by (metis length_map)
    have r1: "load_body pt acc df s0 = (?r, s5)"
      unfolding body u4 using c5 by simp
    have ff0: "financial_fact (committed s4) = financial_fact (committed s0)"
      using p4 f4(4) f3(4) f2(4) f1(4) p0 by simp
    have len1: "length (financial_fact (committed s5)) = length (financial_fact (committed s0)) + n"
      using n5(1) ff0 ln by simp
    have cnt: "\<forall>c1 c2 c3 c4 k. ?r = Inr (c1, c2, c3, c4, k) \<longrightarrow> n = k"
      unfolding n_def by (auto simp: committed_chunks_all split: if_splits)
    have dims: "company (committed s5) = company (pending s1)"
      "statement_type (committed s5) = statement_type (pending s2)"
      "line_item (committed s5) = line_item (pending s3)"
      "filing (committed s5) = filing (pending s4)"
      using d5 p4 f4 f3 f2 by simp_all
    have again: "\<exists>t'. load_body pt acc df t0 = (?r, t')
        \<and> company (committed t') = company (committed t0)
        \<and> statement_type (committed t') = statement_type (committed t0)
        \<and> line_item (committed t') = line_item (committed t0)
        \<and> filing (committed t') = filing (committed t0)
        \<and> length (financial_fact (committed t')) = length (financial_fact (committed t0)) + n"
      if t: "pending t0 = committed t0" "company (pending t0) = company (committed s5)"
        "statement_type (pending t0) = statement_type (committed s5)"
        "line_item (pending t0) = line_item (committed s5)"
        "filing (pending t0) = filing (committed s5)" for t0
    proof -
      have v4: "upsert_filings ?tc t0 = (Inr m4, t0)" using i4 t(5) dims(4) by simp
      obtain t5 new' where e5: "insert_fact_chunks acc ?F t0 = (?r5, t5)"
        and m5: "financial_fact (committed t5) = financial_fact (committed t0) @ new'"
          "map snd new' = committed_chunks acc ?F"
        and g5: "company (committed t5) = company (committed t0)"
          "filing (committed t5) = filing (committed t0)"
          "statement_type (committed t5) = statement_type (committed t0)"
          "line_item (committed t5) = line_item (committed t0)"
        using insert_fact_chunks_result [OF t(1), of acc ?F] by blast
      have "length new' = n" unfolding n_def using m5(2) by (metis length_map)
      then have "length (financial_fact (committed t5)) = length (financial_fact (committed t0)) + n"
        using m5(1) by simp
      moreover have "load_body pt acc df t0 = (?r, t5)"
        using replay [of t0] t dims v4 e5 by simp
      ultimately show ?thesis using g5 by blast
    qed
    have rf: "filing (pending s4) = filing (committed s0) @ rows4" using a4 fl0 by simp
    have app: "\<exists>rc rs rl rf new. company (committed s5) = company (committed s0) @ rc
            \<and> statement_type (committed s5) = statement_type (committed s0) @ rs
            \<and> line_item (committed s5) = line_item (committed s0) @ rl
            \<and> filing (committed s5) = filing (committed s0) @ rf
            \<and> financial_fact (committed s5) = financial_fact (committed s0) @ new"
      using dims rc rs rl rf n5(1) ff0 by simp
    have whole: "(\<exists>e. ?r = Inl e) \<longrightarrow> (\<exists>k. n = k * BATCH_SIZE)"
      unfolding n_def using committed_chunks_whole [of acc ?F] by (auto split: if_splits)
    show ?thesis
      using r1 len1 cnt app whole again by blast
  next
    fix e s4
    assume u4: "upsert_filings ?tc s3 = (Inl e, s4)" and c4: "committed s4 = committed s3"
      and i4: "\<forall>s''. filing (pending s'') = filing (pending s3)
                \<longrightarrow> (\<exists>s3'. upsert_filings ?tc s'' = (Inl e, s3') \<and> committed s3' = committed s'')"
    have r1: "load_body pt acc df s0 = (Inl e, s4)"
      unfolding body u4 by simp
    have c: "committed s4 = pending s3" using c4 p3 by simp
    have len1: "length (financial_fact (committed s4)) = length (financial_fact (committed s0)) + 0"
      using c f3(4) f2(4) f1(4) p0 by simp
    have dims: "company (committed s4) = company (pending s1)"
      "statement_type (committed s4) = statement_type (pending s2)"
      "line_item (committed s4) = line_item (pending s3)"
      "filing (committed s4) = filing (pending s3)"
      using c f3 f2 by simp_all
    have again: "\<exists>t'. load_body pt acc df t0 = (Inl e, t')
        \<and> company (committed t') = company (committed t0)
        \<and> statement_type (committed t') = statement_type (committed t0)
        \<and> line_item (committed t') = line_item (committed t0)
        \<and> filing (committed t') = filing (committed t0)
        \<and> length (financial_fact (committed t')) = length (financial_fact (committed t0)) + 0"
      if t: "pending t0 = committed t0" "company (pending t0) = company (committed s4)"
        "statement_type (pending t0) = statement_type (committed s4)"
        "line_item (pending t0) = line_item (committed s4)"
        "filing (pending t0) = filing (committed s4)" for t0
    proof -
      obtain t3 where v4: "upsert_filings ?tc t0 = (Inl e, t3)" and ct: "committed t3 = committed t0"
        using i4 t(5) dims(4) by auto
      have "load_body pt acc df t0 = (Inl e, t3)"
        using replay [of t0] t dims v4 by simp
      then show ?thesis using ct by simp
    qed
    have cnt: "\<forall>c1 c2 c3 c4 k. (Inl e :: py_error + nat \<times> nat \<times> nat \<times> nat \<times> nat) = Inr (c1, c2, c3, c4, k) \<longrightarrow> (0::nat) = k"
      by simp
    have app: "\<exists>rc rs rl rf new. company (committed s4) = company (committed s0) @ rc
            \<and> statement_type (committed s4) = statement_type (committed s0) @ rs
            \<and> line_item (committed s4) = line_item (committed s0) @ rl
            \<and> filing (committed s4) = filing (committed s0) @ rf
            \<and> financial_fact (committed s4) = financial_fact (committed s0) @ new"
      using dims rc rs rl fl0 c f3(4) f2(4) f1(4) p0 by simp
    have whole: "(\<exists>e'. (Inl e :: py_error + nat \<times> nat \<times> nat \<times> nat \<times> nat) = Inl e') \<longrightarrow> (\<exists>k. (0::nat) = k * BATCH_SIZE)"
      by simp
    show ?thesis
      using r1 len1 cnt app whole again by blast
  qed
qed

lemma load_dataframe_to_db_committed:
  "load_dataframe_to_db pt acc df store =
     (fst (load_body pt acc df \<lparr>committed = store, pending = store\<rparr>),
      committed (snd (load_body pt acc df \<lparr>committed = store, pending = store\<rparr>)))"
  unfolding load_dataframe_to_db_def rollback_def
  by (auto split: prod.splits sum.splits)

text \<open>
  Claim C1. Run the loader on a batch, then again on the same batch. The second run
  returns what the first returned, leaves the tables \<open>company\<close>, \<open>statement_type\<close>,
  \<open>line_item\<close> and \<open>filing\<close> as the first run left them (so their row counts are
  unchanged), and adds to \<open>financial_fact\<close> as many rows as the first run added; when
  the runs do not raise, that number is the number of fact rows the loader staged
  for the batch, the count it logs.
\<close>

theorem load_twice:
  "\<exists>r store1 store2 n.
     load_dataframe_to_db parse_text db_accepts df store = (r, store1)
     \<and> load_dataframe_to_db parse_text db_accepts df store1 = (r, store2)
     \<and> company store2 = company store1
     \<and> statement_type store2 = statement_type store1
     \<and> line_item store2 = line_item store1
     \<and> filing store2 = filing store1
     \<and> length (financial_fact store1) = length (financial_fact store) + n
     \<and> length (financial_fact store2) = length (financial_fact store1) + n
     \<and> (\<forall>companies statement_types line_items filings facts.
           r = Inr (companies, statement_types, line_items, filings, facts) \<longrightarrow> n = facts)"
proof -
  let ?s0 = "\<lparr>committed = store, pending = store\<rparr>"
  have p0: "pending ?s0 = committed ?s0" by simp
  obtain r s' n where run: "load_body parse_text db_accepts df ?s0 = (r, s')"
    and len: "length (financial_fact (committed s')) = length (financial_fact (committed ?s0)) + n"
    and cnt: "\<forall>c1 c2 c3 c4 k. r = Inr (c1, c2, c3, c4, k) \<longrightarrow> n = k"
    and again: "\<forall>t0. pending t0 = committed t0 \<and> company (pending t0) = company (committed s')
            \<and> statement_type (pending t0) = statement_type (committed s')
            \<and> line_item (pending t0) = line_item (committed s')
            \<and> filing (pending t0) = filing (committed s')
          \<longrightarrow> (\<exists>t'. load_body parse_text db_accepts df t0 = (r, t')
                \<and> company (committed t') = company (committed t0)
                \<and> statement_type (committed t') = statement_type (committed t0)
                \<and> line_item (committed t') = line_item (committed t0)
                \<and> filing (committed t') = filing (committed t0)
                \<and> length (financial_fact (committed t')) = length (financial_fact (committed t0)) + n)"
    using load_body_run [OF p0, of parse_text db_accepts df] by blast
  define store1 where "store1 = committed s'"
  let ?t0 = "\<lparr>committed = store1, pending = store1\<rparr>"
  have l1: "load_dataframe_to_db parse_text db_accepts df store = (r, store1)"
    unfolding load_dataframe_to_db_committed run store1_def by simp
  obtain t' where run2: "load_body parse_text db_accepts df ?t0 = (r, t')"
    and d2: "company (committed t') = company (committed ?t0)"
      "statement_type (committed t') = statement_type (committed ?t0)"
      "line_item (committed t') = line_item (committed ?t0)"
      "filing (committed t') = filing (committed ?t0)"
    and len2: "length (financial_fact (committed t')) = length (financial_fact (committed ?t0)) + n"
    using again [rule_format, of ?t0] unfolding store1_def by auto
  have l2: "load_dataframe_to_db parse_text db_accepts df store1 = (r, committed t')"
    unfolding load_dataframe_to_db_committed run2 by simp
  show ?thesis
    using l1 l2 d2 len len2 cnt unfolding store1_def by (intro exI [of _ r] exI [of _ "committed s'"] exI [of _ "committed t'"] exI [of _ n]) simp
qed


text \<open>
  Claim C2, as the code has it. When the loader raises, the exception is the one its
  body raised, and the store holds what was committed before it: every table is the
  old table with rows appended, and the appended fact rows are whole chunks of
  \<open>BATCH_SIZE\<close> rows, those committed before the failing chunk. The chunk that failed
  leaves no row.
\<close>

theorem load_exception_keeps_commits:
  assumes "load_dataframe_to_db parse_text db_accepts df store = (Inl exc, store')"
  shows "fst (load_body parse_text db_accepts df \<lparr>committed = store, pending = store\<rparr>) = Inl exc
     \<and> store' = committed (snd (load_body parse_text db_accepts df \<lparr>committed = store, pending = store\<rparr>))
     \<and> (\<exists>companies statement_types line_items filings facts k.
           company store' = company store @ companies
           \<and> statement_type store' = statement_type store @ statement_types
           \<and> line_item store' = line_item store @ line_items
           \<and> filing store' = filing store @ filings
           \<and> financial_fact store' = financial_fact store @ facts
           \<and> length facts = k * BATCH_SIZE)"
proof -
  let ?s0 = "\<lparr>committed = store, pending = store\<rparr>"
  have p0: "pending ?s0 = committed ?s0" by simp
  obtain r s' n where run: "load_body parse_text db_accepts df ?s0 = (r, s')"
    and len: "length (financial_fact (committed s')) = length (financial_fact (committed ?s0)) + n"
    and app: "\<exists>rc rs rl rf new. company (committed s') = company (committed ?s0) @ rc
            \<and> statement_type (committed s') = statement_type (committed ?s0) @ rs
            \<and> line_item (committed s') = line_item (committed ?s0) @ rl
            \<and> filing (committed s') = filing (committed ?s0) @ rf
            \<and> financial_fact (committed s') = financial_fact (committed ?s0) @ new"
    and whole: "(\<exists>e. r = Inl e) \<longrightarrow> (\<exists>k. n = k * BATCH_SIZE)"
    using load_body_run [OF p0, of parse_text db_accepts df] by blast
  have l: "load_dataframe_to_db parse_text db_accepts df store = (r, committed s')"
    unfolding load_dataframe_to_db_committed run by simp
  then have r: "r = Inl exc" and st: "store' = committed s'" using assms by simp_all
  obtain k where k: "n = k * BATCH_SIZE" using whole r by blast
  obtain rc rs rl rf new where a: "company (committed s') = company store @ rc"
    "statement_type (committed s') = statement_type store @ rs"
    "line_item (committed s') = line_item store @ rl"
    "filing (committed s') = filing store @ rf"
    "financial_fact (committed s') = financial_fact store @ new"
    using app by auto
  have "length new = k * BATCH_SIZE" using len a(5) k by simp
  then have "\<exists>companies statement_types line_items filings facts k.
           company store' = company store @ companies
           \<and> statement_type store' = statement_type store @ statement_types
           \<and> line_item store' = line_item store @ line_items
           \<and> filing store' = filing store @ filings
           \<and> financial_fact store' = financial_fact store @ facts
           \<and> length facts = k * BATCH_SIZE"
    using a st by blast
  then show ?thesis using run r st by simp
qed












lemma load_example_once:
  "load_dataframe_to_db example_parse_text (\<lambda>f. True) [example_row] empty_store =
     (Inr (1, 1, 1, 1, 1),
      \<lparr>company = [(1, ''CATX'')], filing = [(1, 1, (2025, 8, 13), Some 2025, Some True)],
       statement_type = [(1, ''Balance Sheet'')], line_item = [(1, ''Total Assets'')],
       financial_fact = [(1, \<lparr>filing_id = 1, statement_type_id = 1, line_item_id = 1,
           period_type = Some ''Point-in-Time'', end_date = Some (Day (2025, 6, 30)),
           fact_value = Some (Finite (- 271381))\<rparr>)]\<rparr>)"
  by code_simp

lemma load_example_conflict:
  "load_dataframe_to_db example_parse_text (\<lambda>f. True)
       [example_row, example_row\<lparr>df_ticker := Some ''catx''\<rparr>] empty_store =
     (Inl IntegrityError,
      \<lparr>company = [(1, ''CATX'')], filing = [],
       statement_type = [(1, ''Balance Sheet'')], line_item = [(1, ''Total Assets'')],
       financial_fact = []\<rparr>)"
  by code_simp


theorem load_twice_witness:
  "fst (load_dataframe_to_db example_parse_text (\<lambda>f. True) [example_row] empty_store) = Inr (1, 1, 1, 1, 1)
   \<and> length (financial_fact (snd (load_dataframe_to_db example_parse_text (\<lambda>f. True) [example_row]
        (snd (load_dataframe_to_db example_parse_text (\<lambda>f. True) [example_row] empty_store))))) = 2
   \<and> length (company (snd (load_dataframe_to_db example_parse_text (\<lambda>f. True) [example_row]
        (snd (load_dataframe_to_db example_parse_text (\<lambda>f. True) [example_row] empty_store))))) = 1"
proof -
  let ?load = "load_dataframe_to_db example_parse_text (\<lambda>f. True) [example_row]"
  obtain r store1 store2 n where l1: "?load empty_store = (r, store1)"
    and l2: "?load store1 = (r, store2)"
    and c: "company store2 = company store1"
    and f1: "length (financial_fact store1) = length (financial_fact empty_store) + n"
    and f2: "length (financial_fact store2) = length (financial_fact store1) + n"
    and k: "\<forall>companies statement_types line_items filings facts.
           r = Inr (companies, statement_types, line_items, filings, facts) \<longrightarrow> n = facts"
    using load_twice [of example_parse_text "\<lambda>f. True" "[example_row]" empty_store] by blast
  have r: "r = Inr (1, 1, 1, 1, 1)" and c1: "company store1 = [(1, ''CATX'')]"
    using l1 unfolding load_example_once by auto
  then have n: "n = 1" using k by blast
  have "length (financial_fact store2) = 2"
    using f1 f2 n by (simp add: empty_store_def)
  moreover have "length (company store2) = 1" using c c1 by simp
  ultimately show ?thesis using l1 l2 r by simp
qed

theorem load_exception_keeps_commits_witness:
  "fst (load_body example_parse_text (\<lambda>f. True) [example_row, example_row\<lparr>df_ticker := Some ''catx''\<rparr>]
          \<lparr>committed = empty_store, pending = empty_store\<rparr>) = Inl IntegrityError
   \<and> company (snd (load_dataframe_to_db example_parse_text (\<lambda>f. True)
          [example_row, example_row\<lparr>df_ticker := Some ''catx''\<rparr>] empty_store)) = [(1, ''CATX'')]"
proof -
  have a: "fst (load_body example_parse_text (\<lambda>f. True) [example_row, example_row\<lparr>df_ticker := Some ''catx''\<rparr>]
          \<lparr>committed = empty_store, pending = empty_store\<rparr>) = Inl IntegrityError"
    using load_exception_keeps_commits [OF load_example_conflict] by blast
  have b: "company (snd (load_dataframe_to_db example_parse_text (\<lambda>f. True)
          [example_row, example_row\<lparr>df_ticker := Some ''catx''\<rparr>] empty_store)) = [(1, ''CATX'')]"
    unfolding load_example_conflict by simp
  show ?thesis using a b by blast
qed

subsection \<open>A batch of 1001 rows whose last row the database refuses\<close>

lemma unique_same: "xs \<noteq> [] \<Longrightarrow> set xs \<subseteq> {x} \<Longrightarrow> unique xs = [x]"
proof (induction xs)
  case Nil
  then show ?case by simp
next
  case (Cons a xs)
  have a: "a = x" using Cons.prems(2) by simp
  have "set (unique xs) \<subseteq> {x}" using Cons.prems(2) by (simp add: set_unique)
  then have "filter (\<lambda>y. y \<noteq> x) (unique xs) = []"
    by (auto simp: filter_empty_conv)
  then show ?case using a by simp
qed

lemma dropna_append: "dropna (xs @ ys) = dropna xs @ dropna ys"
  by (induction xs) (auto split: option.splits)

lemma dropna_replicate: "dropna (replicate n (Some v)) = replicate n v"
  by (induction n) auto

lemma map_filter_append: "List.map_filter f (xs @ ys) = List.map_filter f xs @ List.map_filter f ys"
  by (simp add: List.map_filter_def)

lemma map_filter_replicate: "f x = Some y \<Longrightarrow> List.map_filter f (replicate n x) = replicate n y"
  by (induction n) (auto simp: List.map_filter_def)

lemma map_filter_single: "List.map_filter f [x] = (case f x of None \<Rightarrow> [] | Some y \<Rightarrow> [y])"
  by (simp add: List.map_filter_def split: option.splits)




lemma set_example_batch: "set example_batch = {example_row, example_bad_row}"
  unfolding example_batch_def by auto

lemma example_batch_nonempty: "example_batch \<noteq> []"
  unfolding example_batch_def by simp

lemma unique_map_same:
  assumes "xs \<noteq> []" and "\<And>r. r \<in> set xs \<Longrightarrow> f r = v"
  shows "unique (map f xs) = [v]"
  by (rule unique_same) (use assms in auto)

lemma set_dropna: "set (dropna xs) = {v. Some v \<in> set xs}"
  by (induction xs) (auto split: option.splits)

lemma unique_dropna_same:
  assumes "xs \<noteq> []" and "\<And>r. r \<in> set xs \<Longrightarrow> f r = Some v"
  shows "unique (dropna (map f xs)) = [v]"
proof (rule unique_same)
  obtain a ys where "xs = a # ys" using assms(1) by (cases xs) auto
  then show "dropna (map f xs) \<noteq> []" using assms(2) [of a] by simp
  show "set (dropna (map f xs)) \<subseteq> {v}" using assms(2) by (auto simp: set_dropna)
qed

lemma example_tickers:
  "unique (map upper (dropna (map df_ticker example_batch))) = [''CATX'']"
proof (rule unique_same)
  have u: "upper ''CATX'' = ''CATX''" by code_simp
  obtain a ys where e: "example_batch = a # ys" and a: "a = example_row"
    unfolding example_batch_def by (simp add: replicate_Suc [symmetric] del: replicate_Suc replicate.simps)
      (metis Suc_pred' append_Cons replicate_Suc zero_less_numeral)
  show "map upper (dropna (map df_ticker example_batch)) \<noteq> []"
    unfolding e a by (simp add: example_row_def)
  show "set (map upper (dropna (map df_ticker example_batch))) \<subseteq> {''CATX''}"
    using u by (auto simp: set_dropna set_example_batch example_row_def example_bad_row_def)
qed

lemma example_stmt_names:
  "unique (dropna (map df_statement_type example_batch)) = [''Balance Sheet'']"
  by (rule unique_dropna_same [OF example_batch_nonempty])
     (auto simp: set_example_batch example_row_def example_bad_row_def)

lemma example_li_names:
  "unique (dropna (map df_line_item example_batch)) = [''Total Assets'']"
  by (rule unique_dropna_same [OF example_batch_nonempty])
     (auto simp: set_example_batch example_row_def example_bad_row_def)

lemma example_filings_to_create:
  "filings_to_create example_parse_text [(''CATX'', 1)] example_batch
     = [(1, (2025, 8, 13), Some 2025, Some True)]"
proof -
  have "unique (map (\<lambda>r. (df_ticker r, parse_date example_parse_text (df_filing_date r),
                           df_fiscal_year r, to_bool (df_is_audited r))) example_batch)
      = [(Some ''CATX'', Some (Day (2025, 8, 13)), Some 2025, Some True)]"
    by (rule unique_map_same [OF example_batch_nonempty])
       (auto simp: set_example_batch example_row_def example_bad_row_def parse_date_def
          example_parse_text_def to_bool_def)
  moreover have "upper (str_cell (Some ''CATX'')) = ''CATX''" by code_simp
  ultimately show ?thesis unfolding filings_to_create_def by simp
qed



lemma example_stage1:
  "upsert_companies [''CATX''] (example_session 0) = (Inr [(''CATX'', 1)], example_session 1)"
  by code_simp

lemma example_stage2:
  "upsert_statement_types [''Balance Sheet''] (example_session 1)
     = (Inr [(''Balance Sheet'', 1)], example_session 2)"
  by code_simp

lemma example_stage3:
  "upsert_line_items [''Total Assets''] (example_session 2)
     = (Inr [(''Total Assets'', 1)], example_session 3)"
  by code_simp

lemma example_stage4:
  "upsert_filings [(1, (2025, 8, 13), Some 2025, Some True)] (example_session 3)
     = (Inr [((1, (2025, 8, 13), Some 2025, Some True), 1)], example_session 4)"
  by code_simp



lemma example_fact_ok:
  "fact_of_row example_parse_text [(''CATX'', 1)] [(''Balance Sheet'', 1)] [(''Total Assets'', 1)]
     [((1, (2025, 8, 13), Some 2025, Some True), 1)] example_row = Some (example_fact (Day (2025, 6, 30)))"
  by code_simp

lemma example_fact_bad:
  "fact_of_row example_parse_text [(''CATX'', 1)] [(''Balance Sheet'', 1)] [(''Total Assets'', 1)]
     [((1, (2025, 8, 13), Some 2025, Some True), 1)] example_bad_row = Some (example_fact NaT)"
  by code_simp

lemma example_fact_rows:
  "List.map_filter (fact_of_row example_parse_text [(''CATX'', 1)] [(''Balance Sheet'', 1)]
       [(''Total Assets'', 1)] [((1, (2025, 8, 13), Some 2025, Some True), 1)]) example_batch
     = replicate 1000 (example_fact (Day (2025, 6, 30))) @ [example_fact NaT]"
proof -
  let ?g = "fact_of_row example_parse_text [(''CATX'', 1)] [(''Balance Sheet'', 1)]
       [(''Total Assets'', 1)] [((1, (2025, 8, 13), Some 2025, Some True), 1)]"
  have "List.map_filter ?g (replicate 1000 example_row) = replicate 1000 (example_fact (Day (2025, 6, 30)))"
    by (rule map_filter_replicate) (rule example_fact_ok)
  moreover have "List.map_filter ?g [example_bad_row] = [example_fact NaT]"
    by (simp only: map_filter_single example_fact_bad option.case)
  ultimately show ?thesis unfolding example_batch_def by (simp add: map_filter_append)
qed

lemma example_accepts: "example_db_accepts (example_fact (Day d))" "\<not> example_db_accepts (example_fact NaT)"
  by (simp_all add: example_db_accepts_def example_fact_def)

lemma example_committed_chunks:
  "committed_chunks example_db_accepts (replicate 1000 (example_fact (Day (2025, 6, 30))) @ [example_fact NaT])
     = replicate 1000 (example_fact (Day (2025, 6, 30)))"
proof -
  let ?ok = "example_fact (Day (2025, 6, 30))"
  have t: "take BATCH_SIZE (replicate 1000 ?ok @ [example_fact NaT]) = replicate 1000 ?ok"
    by (simp add: BATCH_SIZE_def)
  have d: "drop BATCH_SIZE (replicate 1000 ?ok @ [example_fact NaT]) = [example_fact NaT]"
    by (simp add: BATCH_SIZE_def)
  have a: "list_all example_db_accepts (replicate 1000 ?ok)"
    by (simp add: list_all_iff example_accepts)
  have l: "committed_chunks example_db_accepts [example_fact NaT] = []"
    by (simp add: committed_chunks.simps [of _ "[example_fact NaT]"] BATCH_SIZE_def example_accepts)
  have step: "committed_chunks example_db_accepts (replicate 1000 ?ok @ [example_fact NaT])
      = (if replicate 1000 ?ok @ [example_fact NaT] = []
            \<or> \<not> list_all example_db_accepts (take BATCH_SIZE (replicate 1000 ?ok @ [example_fact NaT]))
         then []
         else take BATCH_SIZE (replicate 1000 ?ok @ [example_fact NaT])
              @ committed_chunks example_db_accepts (drop BATCH_SIZE (replicate 1000 ?ok @ [example_fact NaT])))"
    by (rule committed_chunks.simps)
  show ?thesis
    unfolding step t d l using a by simp
qed

text \<open>
  Claim C2 as stated (after an exception none of the call's fact inserts remains
  committed) fails on the batch of 1001 rows: the first chunk of 1000 facts is
  committed, the second chunk raises, and the 1000 facts stay in the store.
\<close>

theorem load_partial_commit_counterexample:
  "fst (load_dataframe_to_db example_parse_text example_db_accepts
          (replicate 1000 example_row @ [example_bad_row]) empty_store) = Inl DatabaseError
   \<and> length (financial_fact (snd (load_dataframe_to_db example_parse_text example_db_accepts
          (replicate 1000 example_row @ [example_bad_row]) empty_store))) = 1000"
proof -
  let ?F = "replicate 1000 (example_fact (Day (2025, 6, 30))) @ [example_fact NaT]"
  have s0: "\<lparr>committed = empty_store, pending = empty_store\<rparr> = example_session 0"
    by (simp add: example_session_def empty_store_def Let_def)
  have u1: "upsert_companies (unique (map upper (dropna (map df_ticker example_batch)))) (example_session 0)
      = (Inr [(''CATX'', 1)], example_session 1)"
    unfolding example_tickers by (rule example_stage1)
  have u2: "upsert_statement_types (unique (dropna (map df_statement_type example_batch))) (example_session 1)
      = (Inr [(''Balance Sheet'', 1)], example_session 2)"
    unfolding example_stmt_names by (rule example_stage2)
  have u3: "upsert_line_items (unique (dropna (map df_line_item example_batch))) (example_session 2)
      = (Inr [(''Total Assets'', 1)], example_session 3)"
    unfolding example_li_names by (rule example_stage3)
  have u4: "upsert_filings (filings_to_create example_parse_text [(''CATX'', 1)] example_batch) (example_session 3)
      = (Inr [((1, (2025, 8, 13), Some 2025, Some True), 1)], example_session 4)"
    unfolding example_filings_to_create by (rule example_stage4)
  have body: "load_body example_parse_text example_db_accepts example_batch (example_session 0)
      = (case insert_fact_chunks example_db_accepts ?F (example_session 4) of
           (Inl e, s') \<Rightarrow> (Inl e, s')
         | (Inr u, s5) \<Rightarrow> (Inr (length [(''CATX'', 1::nat)], length [(''Balance Sheet'', 1::nat)],
              length [(''Total Assets'', 1::nat)],
              length [((1::nat, (2025::nat, 8::nat, 13::nat), Some (2025::int), Some True), 1::nat)],
              length ?F), s5))"
    unfolding load_body_unfold [OF u1 u2 u3, where pt = example_parse_text and acc = example_db_accepts]
      u4 prod.case sum.case example_fact_rows
    by (rule refl)
  have p4: "pending (example_session 4) = committed (example_session 4)"
    by (simp add: example_session_def Let_def)
  have na: "\<not> list_all example_db_accepts ?F" by (simp add: example_accepts)
  obtain s' new where r: "insert_fact_chunks example_db_accepts ?F (example_session 4) = (Inl DatabaseError, s')"
    and f: "financial_fact (committed s') = financial_fact (committed (example_session 4)) @ new"
    and m: "map snd new = committed_chunks example_db_accepts ?F"
    using insert_fact_chunks_result [OF p4, of example_db_accepts ?F] na by auto
  have "length new = 1000"
    using m unfolding example_committed_chunks by (metis length_map length_replicate)
  then have len: "length (financial_fact (committed s')) = 1000"
    using f by (simp add: example_session_def Let_def)
  have "load_dataframe_to_db example_parse_text example_db_accepts example_batch empty_store
      = (Inl DatabaseError, committed s')"
    unfolding load_dataframe_to_db_committed s0 body r by simp
  then show ?thesis using len unfolding example_batch_def by simp
qed

end
